theory Spec2Isabelle
  imports Complex_Main "HOL-Library.Log_Nat"
begin

section \<open>JavaScript numbers\<close>

text \<open>
  A JavaScript Number is an IEEE 754 binary64 value.  The finite ones are rationals, and
  every arithmetic operator returns the exact result rounded to the nearest representable
  value, ties going to the even significand.  \<open>fround p\<close> is that rounding for a
  significand of \<open>p\<close> bits; the exponent is not bounded, so overflow to Infinity and
  gradual underflow are outside the model, and so is NaN.  The quantities of this program
  (inventories up to 400, sales up to 120, lead times up to 21, list lengths) stay far
  inside the normal range.  TensorFlow.js keeps tensors in binary32, \<open>fround 24\<close>.
\<close>

type_synonym number = rat

definition ilog2 :: "rat \<Rightarrow> int" where
  \<comment> \<open>for \<open>q > 0\<close>: the \<open>k\<close> with \<open>2 ^ k \<le> q < 2 ^ (k + 1)\<close>\<close>
  "ilog2 q =
     (let (a, b) = quotient_of q; k = bitlen a - bitlen b
      in if 2 powi k \<le> q then k else k - 1)"

definition rne :: "rat \<Rightarrow> int" where
  \<comment> \<open>nearest integer, a tie going to the even one\<close>
  "rne q =
     (let f = \<lfloor>q\<rfloor>; r = q - of_int f
      in if r < 1 / 2 then f else if 1 / 2 < r then f + 1 else if even f then f else f + 1)"

definition fround :: "nat \<Rightarrow> rat \<Rightarrow> rat" where
  "fround p q =
     (if q = 0 then 0
      else let e = ilog2 \<bar>q\<bar> - (int p - 1); m = rne (\<bar>q\<bar> / 2 powi e)
           in sgn q * of_int m * 2 powi e)"

definition double :: "rat \<Rightarrow> number" where
  "double = fround 53"

definition float32 :: "rat \<Rightarrow> number" where
  "float32 = fround 24"

definition js_mul :: "number \<Rightarrow> number \<Rightarrow> number" where
  "js_mul x y = double (x * y)"

definition js_add :: "number \<Rightarrow> number \<Rightarrow> number" where
  "js_add x y = double (x + y)"

definition js_div :: "number \<Rightarrow> number \<Rightarrow> number" where
  \<comment> \<open>the divisor is never zero where the program divides\<close>
  "js_div x y = double (x / y)"

definition Math_abs :: "number \<Rightarrow> number" where
  "Math_abs x = \<bar>x\<bar>"

definition Math_round :: "number \<Rightarrow> int" where
  \<comment> \<open>nearest integer, a tie going up\<close>
  "Math_round x = \<lfloor>x + 1 / 2\<rfloor>"

definition Math_floor :: "number \<Rightarrow> int" where
  "Math_floor x = \<lfloor>x\<rfloor>"

definition js_rem :: "int \<Rightarrow> int \<Rightarrow> int" where
  \<comment> \<open>the operator \<open>%\<close> on integers: the remainder takes the sign of the dividend\<close>
  "js_rem a b = sgn a * (\<bar>a\<bar> mod \<bar>b\<bar>)"

text \<open>
  \<open>Math.sin\<close> and \<open>Math.cos\<close> are approximated by the engine; the program uses them
  only as fixed functions from Numbers to Numbers, and they are parameters here.
\<close>

record jsmath =
  Math_sin :: "number \<Rightarrow> number"
  Math_cos :: "number \<Rightarrow> number"

section \<open>Number to string\<close>

definition digit_char :: "nat \<Rightarrow> char" where
  "digit_char d = char_of (48 + d)"

fun digits :: "nat \<Rightarrow> string" where
  "digits n = (if n < 10 then [digit_char n] else digits (n div 10) @ [digit_char (n mod 10)])"

declare digits.simps [simp del]

definition int_to_string :: "int \<Rightarrow> string" where
  \<comment> \<open>\<open>String(n)\<close> for an integral Number below \<open>10 ^ 21\<close> in magnitude\<close>
  "int_to_string n = (if n < 0 then CHR ''-'' # digits (nat (- n)) else digits (nat n))"

section \<open>The generator\<close>

record product =
  id_num :: int
  name :: string
  currentInventory :: int
  avgSalesPerWeek :: int
  daysToReplenish :: int
  reorder :: int
  predictionScore :: "number option"
  prediction :: "int option"
  predictionText :: "string option"

definition names :: "string list" where
  "names =
     [''Choco Bar'', ''Soda Pack'', ''Rice 5kg'', ''Coffee Beans'', ''Toothpaste'', ''Shampoo'',
      ''Notebook'', ''Pen'', ''Soap Bar'', ''Cereal'', ''Juice Bottle'', ''Water Bottle'',
      ''Ketchup'', ''Mayonnaise'', ''Cookies'', ''Tea Box'', ''Nuts Pack'', ''Olive Oil'',
      ''Pasta'', ''Sauce'']"

definition safetyFactor :: number where
  "safetyFactor = 5 / 4"

definition newProduct :: "jsmath \<Rightarrow> int \<Rightarrow> product" where
  \<comment> \<open>the body of the loop in \<open>generateProducts\<close>, for the loop index \<open>i\<close>\<close>
  "newProduct M i =
     (let name = names ! nat (js_rem i (int (length names))) @ '' '' @ int_to_string i;
          avgSalesPerWeek =
            max 1 (Math_round (Math_abs (js_mul (Math_sin M (js_mul (of_int i) 11)) 120)));
          currentInventory =
            max 0 (Math_round (Math_abs (js_mul (Math_cos M (js_mul (of_int i) 7)) 400)));
          daysToReplenish = 1 + js_rem i 21;
          expectedDuringLead = js_mul (of_int avgSalesPerWeek) (js_div (of_int daysToReplenish) 7);
          reorder = (if of_int currentInventory < js_mul expectedDuringLead safetyFactor then 1 else 0)
      in \<lparr> id_num = i, name = name, currentInventory = currentInventory,
           avgSalesPerWeek = avgSalesPerWeek, daysToReplenish = daysToReplenish,
           reorder = reorder, predictionScore = None, prediction = None,
           predictionText = None \<rparr>)"

function generateLoop :: "jsmath \<Rightarrow> int \<Rightarrow> int \<Rightarrow> product list \<Rightarrow> product list" where
  "generateLoop M count i products =
     (if i \<le> count then generateLoop M count (i + 1) (products @ [newProduct M i])
      else products)"
  by pat_completeness auto
termination
  by (relation "measure (\<lambda>(M, count, i, products). nat (count + 1 - i))") auto

declare generateLoop.simps [simp del]

definition generateProducts :: "jsmath \<Rightarrow> int \<Rightarrow> product list" where
  "generateProducts M count = generateLoop M count 1 []"

section \<open>The generator and the heap\<close>

text \<open>
  The array that \<open>generateProducts\<close> returns is an object: \<open>[]\<close> creates it,
  \<open>push\<close> changes it in place, and the caller receives a reference to it.  Here the
  arrays of records that exist are the cells of a heap, a reference being the index of a
  cell; a new array takes the next cell.  This is \<open>generateProducts\<close> once more, with
  the allocation and every \<open>push\<close> as steps on the heap.
\<close>

type_synonym heap = "product list list"
type_synonym ref = nat

definition array_new :: "heap \<Rightarrow> ref \<times> heap" where
  "array_new h = (length h, h @ [[]])"

definition array_push :: "heap \<Rightarrow> ref \<Rightarrow> product \<Rightarrow> heap" where
  \<comment> \<open>\<open>a.push(p)\<close>, for a reference \<open>a\<close> to an array of the heap\<close>
  "array_push h a p = h[a := h ! a @ [p]]"

function generateLoop_heap :: "jsmath \<Rightarrow> int \<Rightarrow> ref \<Rightarrow> int \<Rightarrow> heap \<Rightarrow> heap" where
  "generateLoop_heap M count products i h =
     (if i \<le> count
      then generateLoop_heap M count products (i + 1) (array_push h products (newProduct M i))
      else h)"
  by pat_completeness auto
termination
  by (relation "measure (\<lambda>(M, count, products, i, h). nat (count + 1 - i))") auto

declare generateLoop_heap.simps [simp del]

definition generateProducts_heap :: "jsmath \<Rightarrow> int \<Rightarrow> heap \<Rightarrow> ref \<times> heap" where
  "generateProducts_heap M count h =
     (let (products, h1) = array_new h
      in (products, generateLoop_heap M count products 1 h1))"

section \<open>Tensors\<close>

text \<open>
  A rank-1 tensor is a list of Numbers and a rank-2 tensor a list of rows.  The
  operations are those the program calls, on the shapes it calls them with: \<open>tf.sub\<close>
  and \<open>tf.divNoNan\<close> on a matrix and a vector broadcast the vector over the rows.
\<close>

type_synonym tensor1d = "number list"
type_synonym tensor2d = "number list list"

definition tf_min0 :: "tensor2d \<Rightarrow> tensor1d" where
  \<comment> \<open>\<open>t.min(0)\<close>: the minimum of every column\<close>
  "tf_min0 t = (case t of [] \<Rightarrow> [] | r # rs \<Rightarrow> foldl (map2 min) r rs)"

definition tf_max0 :: "tensor2d \<Rightarrow> tensor1d" where
  \<comment> \<open>\<open>t.max(0)\<close>: the maximum of every column\<close>
  "tf_max0 t = (case t of [] \<Rightarrow> [] | r # rs \<Rightarrow> foldl (map2 max) r rs)"

definition tf_sub :: "tensor1d \<Rightarrow> tensor1d \<Rightarrow> tensor1d" where
  "tf_sub a b = map2 (\<lambda>x y. float32 (x - y)) a b"

definition tf_sub_rows :: "tensor2d \<Rightarrow> tensor1d \<Rightarrow> tensor2d" where
  "tf_sub_rows t v = map (\<lambda>row. tf_sub row v) t"

definition tf_divNoNan :: "tensor1d \<Rightarrow> tensor1d \<Rightarrow> tensor1d" where
  \<comment> \<open>the quotient, and 0 where the denominator is 0\<close>
  "tf_divNoNan a b = map2 (\<lambda>x y. if y = 0 then 0 else float32 (x / y)) a b"

definition tf_divNoNan_rows :: "tensor2d \<Rightarrow> tensor1d \<Rightarrow> tensor2d" where
  "tf_divNoNan_rows t v = map (\<lambda>row. tf_divNoNan row v) t"

definition tf_slice_rows :: "tensor2d \<Rightarrow> nat \<Rightarrow> nat \<Rightarrow> tensor2d" where
  \<comment> \<open>\<open>t.slice([b, 0], [n, -1])\<close>, for \<open>b + n\<close> within the rows of \<open>t\<close>\<close>
  "tf_slice_rows t b n = take n (drop b t)"

definition normalize_t :: "tensor2d \<Rightarrow> tensor1d \<Rightarrow> tensor1d \<Rightarrow> tensor2d" where
  "normalize_t tensor mn mx =
     (let sub = tf_sub_rows tensor mn;
          range = tf_sub mx mn
      in tf_divNoNan_rows sub range)"

section \<open>The library and the application state\<close>

text \<open>
  A thrown value is an Error object.  What TensorFlow.js does inside is a parameter:
  \<open>fit\<close> stands for building the three dense layers, compiling and fitting them on
  the training block with the validation block, and returns the fitted model with the
  \<open>val_accuracy\<close> history, or throws; \<open>tensor2d_empty\<close> is what \<open>tf.tensor2d\<close>
  throws for an array without rows.  Disposal of tensors is not modelled.

  The network is the one the program builds: two hidden layers and an output layer of
  one unit with the activation \<open>sigmoid\<close>.  Dense layers treat the rows of their input
  one by one, so \<open>model.predict\<close> followed by reading the data of the result gives one
  score for every row: the sigmoid of what the fitted layers compute for that row
  before the activation.  That value, \<open>output_logit\<close>, depends on the weights and is a
  parameter, and so is what the prediction throws, if anything.  The sigmoid is computed
  as the reference kernel of the library does, \<open>1 / (1 + Math.exp(-x))\<close> in binary64,
  stored as binary32.  \<open>Math_exp\<close> is the exponential of the engine, with \<open>None\<close> for
  Infinity, where the quotient is 0.
\<close>

record thrown =
  err_name :: string
  message :: string

record 'm tfjs =
  fit :: "tensor2d \<Rightarrow> tensor2d \<Rightarrow> tensor2d \<Rightarrow> tensor2d \<Rightarrow> thrown + 'm \<times> number list option"
  output_logit :: "'m \<Rightarrow> number list \<Rightarrow> number"
  predict_throws :: "'m \<Rightarrow> tensor2d \<Rightarrow> thrown option"
  Math_exp :: "number \<Rightarrow> number option"
  tensor2d_empty :: thrown

definition sigmoid :: "'m tfjs \<Rightarrow> number \<Rightarrow> number" where
  "sigmoid tf x =
     (case Math_exp tf (- x) of None \<Rightarrow> 0 | Some e \<Rightarrow> float32 (js_div 1 (js_add 1 e)))"

definition predict :: "'m tfjs \<Rightarrow> 'm \<Rightarrow> tensor2d \<Rightarrow> thrown + number list" where
  "predict tf model t =
     (case predict_throws tf model t of Some e \<Rightarrow> Inl e
      | None \<Rightarrow> Inr (map (\<lambda>row. sigmoid tf (output_logit tf model row)) t))"

definition tensor2d :: "'m tfjs \<Rightarrow> number list list \<Rightarrow> thrown + tensor2d" where
  "tensor2d tf values =
     (if values = [] then Inl (tensor2d_empty tf) else Inr (map (map float32) values))"

type_synonym 'm model_store = "'m \<times> tensor1d \<times> tensor1d"
  \<comment> \<open>the object \<open>{ model, xMin, xMax }\<close> kept in \<open>modelStore.current\<close>\<close>

record stats =
  total :: nat
  serverReorders :: nat
  modelReorders :: nat
  modelAccuracy :: string

record 'm app =
  products :: "product list"
  runningModel :: bool
  stats :: stats
  modelStore :: "'m model_store option"
  alerts :: "string list"
  console :: "thrown list"
  downloads :: "(string \<times> string) list"

definition toFixed :: "nat \<Rightarrow> number \<Rightarrow> string" where
  \<comment> \<open>\<open>x.toFixed(f)\<close> for \<open>x\<close> below \<open>10 ^ 21\<close> in magnitude\<close>
  "toFixed f x =
     (let n = nat \<lfloor>\<bar>x\<bar> * 10 ^ f + 1 / 2\<rfloor>;
          m = digits n;
          m = (if f = 0 then m else replicate (f + 1 - length m) CHR ''0'' @ m);
          k = length m - f
      in (if x < 0 then ''-'' else '''')
         @ (if f = 0 then m else take k m @ ''.'' @ drop k m))"

definition error_toString :: "thrown \<Rightarrow> string" where
  "error_toString e =
     (if err_name e = [] then message e
      else if message e = [] then err_name e
      else err_name e @ '': '' @ message e)"

section \<open>Training and prediction\<close>

definition features :: "product \<Rightarrow> number list" where
  "features p =
     [of_int (currentInventory p), of_int (avgSalesPerWeek p), of_int (daysToReplenish p)]"

definition trainSplit :: "nat \<Rightarrow> nat" where
  \<comment> \<open>\<open>Math.floor(total * 0.8)\<close>\<close>
  "trainSplit n = nat (Math_floor (js_mul (of_nat n) (double (4 / 5))))"

definition trainingData ::
  "'m tfjs \<Rightarrow> product list
   \<Rightarrow> thrown + tensor1d \<times> tensor1d \<times> tensor2d \<times> tensor2d \<times> tensor2d \<times> tensor2d" where
  \<comment> \<open>\<open>buildAndTrainModel\<close> up to the call of \<open>model.fit\<close>: the normalisation
      parameters and the four blocks handed to it\<close>
  "trainingData tf items =
     (let xs = map features items;
          ys = map (\<lambda>p. [of_int (reorder p)]) items
      in case tensor2d tf xs of Inl e \<Rightarrow> Inl e | Inr xTensor \<Rightarrow>
         (case tensor2d tf ys of Inl e \<Rightarrow> Inl e | Inr yTensor \<Rightarrow>
            (let xMin = tf_min0 xTensor;
                 xMax = tf_max0 xTensor;
                 xNorm = normalize_t xTensor xMin xMax;
                 total = length items;
                 split = trainSplit total;
                 xTrain = tf_slice_rows xNorm 0 split;
                 yTrain = tf_slice_rows yTensor 0 split;
                 xVal = tf_slice_rows xNorm split (total - split);
                 yVal = tf_slice_rows yTensor split (total - split)
             in Inr (xMin, xMax, xTrain, yTrain, xVal, yVal))))"

definition buildAndTrainModel ::
  "'m tfjs \<Rightarrow> product list \<Rightarrow> 'm model_store option
   \<Rightarrow> (thrown + 'm \<times> tensor1d \<times> tensor1d \<times> number option) \<times> 'm model_store option" where
  \<comment> \<open>the second component is \<open>modelStore.current\<close> afterwards\<close>
  "buildAndTrainModel tf items store =
     (case trainingData tf items of Inl e \<Rightarrow> (Inl e, store)
      | Inr (xMin, xMax, xTrain, yTrain, xVal, yVal) \<Rightarrow>
          (case fit tf xTrain yTrain xVal yVal of Inl e \<Rightarrow> (Inl e, store)
           | Inr (model, val_accuracy) \<Rightarrow>
               (let lastValAcc =
                      (case val_accuracy of None \<Rightarrow> None
                       | Some accs \<Rightarrow> if accs = [] then None else Some (last accs))
                in (Inr (model, xMin, xMax, lastValAcc),
                    Some (model, xMin, xMax)))))"

definition typed_array_get :: "number list \<Rightarrow> nat \<Rightarrow> number option" where
  \<comment> \<open>\<open>a[i]\<close> on a typed array: \<open>undefined\<close> past the end\<close>
  "typed_array_get a i = (if i < length a then Some (a ! i) else None)"

definition scoreProduct :: "number list \<Rightarrow> nat \<times> product \<Rightarrow> product" where
  \<comment> \<open>the function mapped over \<open>products\<close> with its index; \<open>undefined > 0.5\<close> is false\<close>
  "scoreProduct predData = (\<lambda>(i, p).
     (let score = typed_array_get predData i;
          predicted = (case score of None \<Rightarrow> 0 | Some x \<Rightarrow> if 1 / 2 < x then 1 else 0)
      in p\<lparr> predictionScore := score, prediction := Some predicted,
            predictionText := Some (if predicted \<noteq> 0 then ''Reorder'' else ''No Reorder'') \<rparr>))"

definition trainAndPredict_try :: "'m tfjs \<Rightarrow> 'm app \<Rightarrow> (thrown + unit) \<times> 'm app" where
  \<comment> \<open>the \<open>try\<close> block of \<open>trainAndPredict\<close>: what was thrown, if anything, and the
      state reached\<close>
  "trainAndPredict_try tf s =
     (case buildAndTrainModel tf (products s) (modelStore s) of
        (Inl e, store) \<Rightarrow> (Inl e, s\<lparr>modelStore := store\<rparr>)
      | (Inr (model, xMin, xMax, valAcc), store) \<Rightarrow>
          (let s1 = s\<lparr>modelStore := store\<rparr>;
               inputs = map features (products s)
           in case tensor2d tf inputs of Inl e \<Rightarrow> (Inl e, s1) | Inr inputTensor \<Rightarrow>
              (let inputNorm = normalize_t inputTensor xMin xMax
               in case predict tf model inputNorm of Inl e \<Rightarrow> (Inl e, s1)
                  | Inr predData \<Rightarrow>
                      (let updated = map (scoreProduct predData) (enumerate 0 (products s));
                           modelReorders =
                             length (filter (\<lambda>x. case prediction x of None \<Rightarrow> False
                                                 | Some v \<Rightarrow> v \<noteq> 0) updated)
                       in (Inr (),
                           s1\<lparr> products := updated,
                               stats := \<lparr> total = length updated,
                                 serverReorders = length (filter (\<lambda>p. reorder p \<noteq> 0) updated),
                                 modelReorders = modelReorders,
                                 modelAccuracy =
                                   (case valAcc of None \<Rightarrow> ''N/A''
                                    | Some a \<Rightarrow> toFixed 1 (js_mul a 100) @ ''%'') \<rparr> \<rparr>)))))"

definition trainAndPredict :: "'m tfjs \<Rightarrow> 'm app \<Rightarrow> 'm app" where
  "trainAndPredict tf s =
     (if products s = [] then s\<lparr>alerts := alerts s @ [''No products available.'']\<rparr>
      else
        (let s1 = s\<lparr>runningModel := True\<rparr>;
             s2 = (case trainAndPredict_try tf s1 of
                     (Inr u, s') \<Rightarrow> s'
                   | (Inl err, s') \<Rightarrow>
                       s'\<lparr> console := console s' @ [err],
                           alerts := alerts s' @
                             [''Error training/predicting: '' @
                              (if message err \<noteq> [] then message err else error_toString err)] \<rparr>)
         in s2\<lparr>runningModel := False\<rparr>))"

section \<open>The export\<close>

definition quote_char :: char where
  "quote_char = CHR 0x22"

definition csvQuote :: "string \<Rightarrow> string" where
  \<comment> \<open>the name between double quotes, every double quote inside it doubled\<close>
  "csvQuote s =
     quote_char # concat (map (\<lambda>c. if c = quote_char then [c, c] else [c]) s) @ [quote_char]"

fun join :: "string \<Rightarrow> string list \<Rightarrow> string" where
  "join sep [] = []"
| "join sep [x] = x"
| "join sep (x # y # ys) = x @ sep @ join sep (y # ys)"

definition csvFields :: "product \<Rightarrow> string list" where
  "csvFields p =
     [int_to_string (id_num p),
      csvQuote (name p),
      int_to_string (currentInventory p),
      int_to_string (avgSalesPerWeek p),
      int_to_string (daysToReplenish p),
      int_to_string (reorder p),
      (case prediction p of None \<Rightarrow> '''' | Some v \<Rightarrow> int_to_string v),
      (case predictionScore p of None \<Rightarrow> ''''
       | Some x \<Rightarrow> if x \<noteq> 0 then toFixed 4 x else '''')]"

definition header :: "string list" where
  "header =
     [''id'', ''name'', ''currentInventory'', ''avgSalesPerWeek'', ''daysToReplenish'',
      ''serverReorder'', ''prediction'', ''predictionScore'']"

definition csvText :: "product list \<Rightarrow> string" where
  "csvText ps = join [CHR 0x0A] (join '','' header # map (\<lambda>p. join '','' (csvFields p)) ps)"

definition downloadCSV :: "'m app \<Rightarrow> 'm app" where
  "downloadCSV s =
     (if products s = [] then s\<lparr>alerts := alerts s @ [''No products to download.'']\<rparr>
      else s\<lparr>downloads := downloads s @ [(''products_with_predictions.csv'', csvText (products s))]\<rparr>)"

section \<open>Reference formulas\<close>

text \<open>
  The rule of the data model, as a formula of its own: \<open>currentInventory <
  avgSalesPerWeek * (daysToReplenish / 7) * 1.25\<close>, evaluated as JavaScript evaluates it,
  from the left and in binary64.
\<close>

definition reorderRule :: "int \<Rightarrow> int \<Rightarrow> int \<Rightarrow> bool" where
  "reorderRule inventory sales days =
     (of_int inventory < js_mul (js_mul (of_int sales) (js_div (of_int days) 7)) (5 / 4))"

definition baseFields :: "product \<Rightarrow> int \<times> string \<times> int \<times> int \<times> int \<times> int" where
  \<comment> \<open>the five base fields and the label\<close>
  "baseFields p =
     (id_num p, name p, currentInventory p, avgSalesPerWeek p, daysToReplenish p, reorder p)"

section \<open>Reading the export back\<close>

text \<open>
  The reader against which the round trip of the export is stated.  It scans
  comma-separated text: a double quote opens or closes a quoted stretch, a comma outside
  quotes ends a field, a line feed outside quotes ends a row.  The name is unquoted by
  dropping the enclosing quotes and halving the doubled ones, the numeric fields are read
  as decimal integers, and the header row is skipped.
\<close>

fun csvScan :: "bool \<Rightarrow> string \<Rightarrow> string list \<Rightarrow> string \<Rightarrow> string list list" where
  "csvScan q field row [] = [row @ [field]]"
| "csvScan q field row (c # cs) =
     (if c = quote_char then csvScan (\<not> q) (field @ [c]) row cs
      else if \<not> q \<and> c = CHR '','' then csvScan q [] (row @ [field]) cs
      else if \<not> q \<and> c = CHR 0x0A then (row @ [field]) # csvScan q [] [] cs
      else csvScan q (field @ [c]) row cs)"

fun undouble :: "string \<Rightarrow> string" where
  "undouble (a # b # cs) =
     (if a = quote_char \<and> b = quote_char then a # undouble cs else a # undouble (b # cs))"
| "undouble cs = cs"

definition csvUnquote :: "string \<Rightarrow> string" where
  "csvUnquote s =
     (if 2 \<le> length s \<and> hd s = quote_char \<and> last s = quote_char
      then undouble (butlast (tl s)) else s)"

definition parse_nat :: "string \<Rightarrow> nat" where
  "parse_nat s = foldl (\<lambda>n c. 10 * n + (of_char c - 48)) 0 s"

definition parse_int :: "string \<Rightarrow> int" where
  "parse_int s =
     (case s of [] \<Rightarrow> 0
      | c # cs \<Rightarrow> if c = CHR ''-'' then - int (parse_nat cs) else int (parse_nat s))"

definition parseRow :: "string list \<Rightarrow> int \<times> string \<times> int \<times> int \<times> int \<times> int" where
  "parseRow fs =
     (parse_int (fs ! 0), csvUnquote (fs ! 1), parse_int (fs ! 2), parse_int (fs ! 3),
      parse_int (fs ! 4), parse_int (fs ! 5))"

definition parseCSV :: "string \<Rightarrow> (int \<times> string \<times> int \<times> int \<times> int \<times> int) list" where
  "parseCSV text = map parseRow (tl (csvScan False [] [] text))"

section \<open>Sample inputs\<close>

text \<open>
  Concrete engines, libraries and states on which the definitions are evaluated.  The
  sample sine and cosine are \<open>2 x / (1 + x\<^sup>2)\<close> and \<open>(1 - x\<^sup>2) / (1 + x\<^sup>2)\<close>, which
  stay between -1 and 1, and the sample exponential is the power of 2 at the floor of
  its argument, infinite above 709.  The output unit of the sample library computes the
  first feature of a row; that of the second one is saturated at -1000, so that every
  score is 0; the failing one throws from \<open>fit\<close>.
\<close>

definition sampleExp :: "number \<Rightarrow> number option" where
  "sampleExp x = (if 709 < x then None else Some (2 powi \<lfloor>x\<rfloor>))"

definition sampleMath :: jsmath where
  "sampleMath =
     \<lparr> Math_sin = (\<lambda>x. 2 * x / (1 + x * x)), Math_cos = (\<lambda>x. (1 - x * x) / (1 + x * x)) \<rparr>"

definition sampleMath2 :: jsmath where
  \<comment> \<open>as \<open>sampleMath\<close>, with another sine at 0\<close>
  "sampleMath2 =
     \<lparr> Math_sin = (\<lambda>x. if x = 0 then 5 else 2 * x / (1 + x * x)),
       Math_cos = (\<lambda>x. (1 - x * x) / (1 + x * x)) \<rparr>"

definition sampleTf :: "nat tfjs" where
  "sampleTf =
     \<lparr> fit = (\<lambda>xTrain yTrain xVal yVal. Inr (length xTrain, Some [1 / 2, 3 / 4])),
       output_logit = (\<lambda>m row. row ! 0),
       predict_throws = (\<lambda>m t. None), Math_exp = sampleExp,
       tensor2d_empty = \<lparr> err_name = ''Error'', message = ''no values'' \<rparr> \<rparr>"

definition sampleTf2 :: "nat tfjs" where
  \<comment> \<open>a library whose fitted network scores every row 0\<close>
  "sampleTf2 =
     \<lparr> fit = (\<lambda>xTrain yTrain xVal yVal. Inr (length xVal, None)),
       output_logit = (\<lambda>m row. - 1000),
       predict_throws = (\<lambda>m t. None), Math_exp = sampleExp,
       tensor2d_empty = \<lparr> err_name = ''Error'', message = ''no values'' \<rparr> \<rparr>"

definition sampleProducts :: "product list" where
  "sampleProducts =
     [\<lparr> id_num = 1, name = ''Soda Pack 1'', currentInventory = 384, avgSalesPerWeek = 22,
        daysToReplenish = 2, reorder = 0, predictionScore = None, prediction = None,
        predictionText = None \<rparr>,
      \<lparr> id_num = 2, name = ''Rice, 5kg'', currentInventory = 396, avgSalesPerWeek = 11,
        daysToReplenish = 3, reorder = 0, predictionScore = Some (3 / 4), prediction = Some 1,
        predictionText = Some ''Reorder'' \<rparr>]"

definition failingTf :: "nat tfjs" where
  "failingTf =
     \<lparr> fit = (\<lambda>xTrain yTrain xVal yVal. Inl \<lparr> err_name = ''Error'', message = ''fit failed'' \<rparr>),
       output_logit = (\<lambda>m row. row ! 0),
       predict_throws = (\<lambda>m t. None), Math_exp = sampleExp,
       tensor2d_empty = \<lparr> err_name = ''Error'', message = ''no values'' \<rparr> \<rparr>"

definition initialApp :: "product list \<Rightarrow> nat app" where
  \<comment> \<open>the state of the component once \<open>products\<close> has been set\<close>
  "initialApp ps =
     \<lparr> products = ps, runningModel = False,
       stats = \<lparr> total = length ps,
                 serverReorders = length (filter (\<lambda>p. reorder p \<noteq> 0) ps),
                 modelReorders = 0, modelAccuracy = ''N/A'' \<rparr>,
       modelStore = None, alerts = [], console = [], downloads = [] \<rparr>"

section \<open>Properties of the generator\<close>

lemma generateLoop_upto:
  "generateLoop M count i acc = acc @ map (newProduct M) [i..count]"
proof (induction M count i acc rule: generateLoop.induct)
  case (1 M count i acc)
  show ?case
  proof (cases "i \<le> count")
    case True
    then have "[i..count] = i # [i + 1..count]"
      by (simp add: upto_rec1)
    with True "1.IH" show ?thesis
      by (simp add: generateLoop.simps [of M count i])
  next
    case False
    then show ?thesis
      by (simp add: generateLoop.simps [of M count i])
  qed
qed

lemma generateProducts_upto: "generateProducts M count = map (newProduct M) [1..count]"
  by (simp add: generateProducts_def generateLoop_upto)

lemma length_generateProducts: "length (generateProducts M count) = nat count"
  by (simp add: generateProducts_upto)

lemma nth_generateProducts:
  assumes "1 \<le> i" and "i \<le> count"
  shows "generateProducts M count ! nat (i - 1) = newProduct M i"
proof -
  have "nat (i - 1) < length [1..count]"
    using assms by simp
  moreover have "[1..count] ! nat (i - 1) = i"
    using assms by (simp add: nth_upto)
  ultimately show ?thesis
    by (simp add: generateProducts_upto)
qed

lemma id_num_newProduct: "id_num (newProduct M i) = i"
  by (simp add: newProduct_def Let_def)

lemma reorder_newProduct:
  "reorder (newProduct M i) =
     (if reorderRule (currentInventory (newProduct M i)) (avgSalesPerWeek (newProduct M i))
           (daysToReplenish (newProduct M i))
      then 1 else 0)"
  by (simp add: newProduct_def reorderRule_def safetyFactor_def Let_def)

text \<open>
  C1. For every count and every index \<open>i\<close> from 1 to count, the record at position
  \<open>i - 1\<close> of the generated sequence carries the label 1 exactly when the rule holds of
  the inventory, the weekly sales and the lead time stored in that same record; the label
  is 0 otherwise.
\<close>

theorem generateProducts_reorder_rule:
  assumes "1 \<le> i" and "i \<le> count"
  shows "(let p = generateProducts M count ! nat (i - 1)
          in (reorder p = 1 \<longleftrightarrow>
                reorderRule (currentInventory p) (avgSalesPerWeek p) (daysToReplenish p))
             \<and> (reorder p = 0 \<or> reorder p = 1))"
  unfolding Let_def nth_generateProducts [OF assms]
  by (subst (1 2 3) reorder_newProduct) simp

theorem generateProducts_reorder_rule_witness:
  "(1::int) \<le> 2 \<and> (2::int) \<le> 3
   \<and> (let p = generateProducts sampleMath 3 ! nat (2 - 1)
      in (reorder p = 1 \<longleftrightarrow>
            reorderRule (currentInventory p) (avgSalesPerWeek p) (daysToReplenish p))
         \<and> (reorder p = 0 \<or> reorder p = 1))"
  using generateProducts_reorder_rule [of 2 3 sampleMath] by simp

text \<open>
  The rule has to be evaluated as the program evaluates it.  For an inventory of 135,
  weekly sales of 42 and a lead time of 18 days the binary64 product is just above 135,
  so the label is 1, while the exact product is 135, which 135 is not below.
\<close>

lemma reorderRule_binary64:
  "reorderRule 135 42 18 \<and> \<not> (135 < (42::rat) * (18 / 7) * (5 / 4))"
  by code_simp

text \<open>
  C8. For a non-negative count the generator returns exactly count records, and their
  ids are 1, 2, ..., count in this order; for 150 these are 150 records with the ids 1 to
  150, and for 0 the sequence is empty.
\<close>

theorem generateProducts_ids:
  "(0 \<le> count \<longrightarrow>
      int (length (generateProducts M count)) = count
      \<and> map id_num (generateProducts M count) = [1..count])
   \<and> length (generateProducts M 150) = 150
   \<and> map id_num (generateProducts M 150) = [1..150]
   \<and> generateProducts M 0 = []"
proof -
  have ids: "map id_num (generateProducts M c) = [1..c]" for c
    by (simp add: generateProducts_upto id_num_newProduct comp_def)
  show ?thesis
    by (simp add: ids length_generateProducts) (simp add: generateProducts_upto)
qed

theorem generateProducts_ids_witness:
  "(0::int) \<le> 3 \<and> int (length (generateProducts sampleMath 3)) = 3
   \<and> map id_num (generateProducts sampleMath 3) = [1, 2, 3]"
proof -
  have "[1..3::int] = [1, 2, 3]"
    by (simp add: upto_rec1)
  with generateProducts_ids [of 3 sampleMath] show ?thesis
    by simp
qed

section \<open>Rounding\<close>

text \<open>
  The scaled significand of a positive value lies between \<open>2 ^ (p - 1)\<close> and \<open>2 ^ p\<close>,
  so rounding moves the value by at most its \<open>2 ^ p\<close>-th part, and it never goes below
  an integer that the value has reached.  Applied to the product of a length and the
  binary64 constant 0.8, this gives the split index exactly, and shows that it never
  exceeds the length: the slices taken by the trainer are inside their tensors.
\<close>

lemma bitlen_powi_bounds:
  assumes "0 < a"
  shows "2 powi (bitlen a - 1) \<le> (of_int a :: rat)" and "(of_int a :: rat) < 2 powi (bitlen a)"
    and "1 \<le> bitlen a"
proof -
  show one: "1 \<le> bitlen a"
    using assms bitlen_eq_zero_iff [of a] bitlen_nonneg [of a] by linarith
  have "2 ^ nat (bitlen a - 1) \<le> a" and "a < 2 ^ nat (bitlen a)"
    using bitlen_bounds [OF assms] by simp_all
  then have "(of_int (2 ^ nat (bitlen a - 1)) :: rat) \<le> of_int a"
    and "(of_int a :: rat) < of_int (2 ^ nat (bitlen a))"
    by (simp_all only: of_int_le_iff of_int_less_iff)
  then show "2 powi (bitlen a - 1) \<le> (of_int a :: rat)" and "(of_int a :: rat) < 2 powi (bitlen a)"
    using one by (simp_all add: power_int_nonneg_exp)
qed

lemma ilog2_bounds:
  assumes "0 < q"
  shows "2 powi (ilog2 q) \<le> q" and "q < 2 powi (ilog2 q + 1)"
proof -
  obtain a b where ab: "quotient_of q = (a, b)"
    by (cases "quotient_of q")
  then have q: "q = of_int a / of_int b" and b: "0 < b"
    by (simp_all add: quotient_of_div quotient_of_denom_pos)
  with assms have a: "0 < a"
    by (simp add: zero_less_divide_iff)
  define k where "k = bitlen a - bitlen b"
  have rb: "(0::rat) < of_int b"
    using b by simp
  have "2 powi (k - 1) * 2 powi (bitlen b) = (2::rat) powi (bitlen a - 1)"
    by (simp add: k_def power_int_add [symmetric])
  also have "\<dots> \<le> of_int a"
    by (rule bitlen_powi_bounds [OF a])
  finally have "2 powi (k - 1) * 2 powi (bitlen b) \<le> (of_int a :: rat)" .
  moreover have "2 powi (k - 1) * of_int b < (2::rat) powi (k - 1) * 2 powi (bitlen b)"
    using bitlen_powi_bounds(2) [OF b] by (intro mult_strict_left_mono) simp_all
  ultimately have "2 powi (k - 1) * of_int b < (of_int a :: rat)"
    by (rule less_le_trans [rotated])
  then have lower: "2 powi (k - 1) < q"
    using rb by (simp add: q pos_less_divide_eq)
  have "(of_int a :: rat) < 2 powi (bitlen a)"
    by (rule bitlen_powi_bounds [OF a])
  also have "\<dots> = 2 powi (k + 1) * 2 powi (bitlen b - 1)"
    by (simp add: k_def power_int_add [symmetric])
  also have "\<dots> \<le> 2 powi (k + 1) * of_int b"
    using bitlen_powi_bounds(1) [OF b] by (simp add: mult_left_mono)
  finally have upper: "q < 2 powi (k + 1)"
    using rb by (simp add: q pos_divide_less_eq)
  have il: "ilog2 q = (if 2 powi k \<le> q then k else k - 1)"
    by (simp add: ilog2_def ab k_def)
  show "2 powi (ilog2 q) \<le> q"
    using lower by (simp add: il)
  show "q < 2 powi (ilog2 q + 1)"
    using upper by (simp add: il)
qed

lemma rne_error: "\<bar>of_int (rne y) - y\<bar> \<le> 1 / 2"
proof -
  have "of_int \<lfloor>y\<rfloor> \<le> y" and "y < of_int \<lfloor>y\<rfloor> + 1"
    by linarith+
  then show ?thesis
    unfolding rne_def Let_def by (simp add: abs_le_iff)
qed

lemma rne_ge_int:
  assumes "of_int k \<le> y"
  shows "k \<le> rne y"
proof -
  have "k \<le> \<lfloor>y\<rfloor>"
    using assms by (simp add: le_floor_iff)
  then show ?thesis
    unfolding rne_def Let_def by simp
qed

lemma fround_pos:
  assumes "0 < q"
  shows "fround p q = of_int (rne (q / 2 powi (ilog2 q - (int p - 1)))) * 2 powi (ilog2 q - (int p - 1))"
  using assms by (simp add: fround_def Let_def)

lemma fround_pos_error:
  assumes "0 < q"
  shows "\<bar>fround p q - q\<bar> \<le> q / 2 ^ p"
proof -
  define e where "e = ilog2 q - (int p - 1)"
  define E :: rat where "E = 2 powi e"
  define y where "y = q / E"
  have fr: "fround p q = of_int (rne y) * E"
    by (simp add: fround_pos [OF assms] e_def y_def E_def)
  have pe: "0 < E"
    by (simp add: E_def)
  have "(of_int (rne y) - y) * E = fround p q - q"
    using pe by (simp add: fr y_def left_diff_distrib)
  then have "\<bar>fround p q - q\<bar> = \<bar>of_int (rne y) - y\<bar> * E"
    using pe by (simp add: abs_mult flip: \<open>(of_int (rne y) - y) * E = fround p q - q\<close>)
  also have "\<dots> \<le> (1 / 2) * E"
    using rne_error [of y] pe by (intro mult_right_mono) simp_all
  also have "(1 / 2) * E = 2 powi (ilog2 q) / 2 ^ p"
  proof -
    have "e + int p = ilog2 q + 1"
      by (simp add: e_def)
    then have "E * 2 powi (int p) = 2 powi (ilog2 q + 1)"
      unfolding E_def by (subst power_int_add [symmetric]) simp_all
    also have "\<dots> = 2 powi (ilog2 q) * 2"
      by (subst power_int_add) simp_all
    finally have "E * 2 ^ p = 2 powi (ilog2 q) * 2"
      by simp
    then show ?thesis
      by (simp add: field_simps)
  qed
  also have "\<dots> \<le> q / 2 ^ p"
    using ilog2_bounds(1) [OF assms] by (simp add: divide_right_mono)
  finally show ?thesis .
qed

lemma fround_pos_ge_int:
  assumes "0 < m" and "of_int m \<le> q" and "q < 2 ^ p"
  shows "of_int m \<le> fround p q"
proof -
  have q: "0 < q"
    using assms by (simp add: less_le_trans [of 0 "of_int m" q])
  define e where "e = ilog2 q - (int p - 1)"
  have "(2::rat) powi (ilog2 q) < 2 powi (int p)"
    using ilog2_bounds(1) [OF q] assms(3) by simp
  then have "ilog2 q < int p"
    by (intro power_int_le_imp_less_exp [of "2::rat"]) simp_all
  then have e: "e \<le> 0"
    by (simp add: e_def)
  define n where "n = nat (- e)"
  have E: "(2::rat) powi e = 1 / 2 ^ n"
    using e by (simp add: n_def power_int_def inverse_eq_divide power_one_over)
  have "of_int (m * 2 ^ n) \<le> q / 2 powi e"
    using assms(2) by (simp add: E mult_right_mono)
  then have "m * 2 ^ n \<le> rne (q / 2 powi e)"
    by (rule rne_ge_int)
  then have "(of_int (m * 2 ^ n) :: rat) \<le> of_int (rne (q / 2 powi e))"
    by (simp only: of_int_le_iff)
  then have "of_int (m * 2 ^ n) * 2 powi e \<le> of_int (rne (q / 2 powi e)) * (2::rat) powi e"
    by (intro mult_right_mono) simp_all
  then show ?thesis
    by (simp add: fround_pos [OF q] e_def [symmetric]) (simp add: E pos_le_divide_eq)
qed

lemma double_four_fifths: "double (4 / 5) = 3602879701896397 / 4503599627370496"
  by code_simp

lemma js_mul_upper:
  assumes "0 < x * y"
  shows "js_mul x y \<le> x * y + x * y / 2 ^ 53" and "x * y - x * y / 2 ^ 53 \<le> js_mul x y"
proof -
  define z where "z = x * y"
  have "\<bar>fround 53 z - z\<bar> \<le> z / 2 ^ 53"
    using fround_pos_error [of z 53] assms by (simp add: z_def)
  then have "fround 53 z \<le> z + z / 2 ^ 53" and "z - z / 2 ^ 53 \<le> fround 53 z"
    by linarith+
  then show "js_mul x y \<le> x * y + x * y / 2 ^ 53" and "x * y - x * y / 2 ^ 53 \<le> js_mul x y"
    by (simp_all add: js_mul_def double_def z_def)
qed

lemma trainSplit_le: "trainSplit n \<le> n"
proof (cases "n = 0")
  case True
  then show ?thesis
    by (simp add: trainSplit_def js_mul_def double_def fround_def Math_floor_def)
next
  case False
  define x :: rat where "x = of_nat n * (3602879701896397 / 4503599627370496)"
  have n: "(0::rat) < of_nat n"
    using False by simp
  then have x: "0 < x"
    by (simp add: x_def)
  have "js_mul (of_nat n) (double (4 / 5)) \<le> x + x / 2 ^ 53"
    using js_mul_upper(1) [of "of_nat n" "double (4 / 5)"] x
    by (simp add: double_four_fifths x_def)
  also have "\<dots> \<le> of_nat n"
    using n by (simp add: x_def)
  finally have "\<lfloor>js_mul (of_nat n) (double (4 / 5))\<rfloor> \<le> int n"
    by (simp add: floor_le_iff)
  then show ?thesis
    by (simp add: trainSplit_def Math_floor_def)
qed

lemma trainSplit_eq:
  assumes "n < 2 ^ 40"
  shows "trainSplit n = 4 * n div 5"
proof (cases "n = 0")
  case True
  then show ?thesis
    by (simp add: trainSplit_def js_mul_def double_def fround_def Math_floor_def)
next
  case False
  define x :: rat where "x = of_nat n * (3602879701896397 / 4503599627370496)"
  define m where "m = 4 * n div 5"
  define fl where "fl = js_mul (of_nat n) (double (4 / 5))"
  have n: "(0::rat) < of_nat n"
    using False by simp
  have "(of_nat n :: rat) < of_nat (2 ^ 40)"
    using assms by (simp only: of_nat_less_iff)
  then have n40: "(of_nat n :: rat) < 2 ^ 40"
    by simp
  from n have x: "0 < x"
    by (simp add: x_def)
  have "5 * m \<le> 4 * n" and "4 * n \<le> 5 * m + 4"
    unfolding m_def by presburger+
  then have "(of_nat (5 * m) :: rat) \<le> of_nat (4 * n)"
    and "(of_nat (4 * n) :: rat) \<le> of_nat (5 * m + 4)"
    by (simp_all only: of_nat_le_iff)
  then have m1: "5 * (of_nat m :: rat) \<le> 4 * of_nat n"
    and m2: "4 * (of_nat n :: rat) \<le> 5 * of_nat m + 4"
    by simp_all
  have up: "fl \<le> x + x / 2 ^ 53" and low: "x - x / 2 ^ 53 \<le> fl"
    using js_mul_upper [of "of_nat n" "double (4 / 5)"] x
    by (simp_all add: double_four_fifths x_def fl_def)
  have "fl < of_nat m + 1"
  proof -
    define N :: rat where "N = of_nat n"
    have "x + x / 2 ^ 53 = N * (32451855365842678082635154902221 / 40564819207303340847894502572032)"
      by (simp add: x_def N_def)
    with up have "fl \<le> N * (32451855365842678082635154902221 / 40564819207303340847894502572032)"
      by simp
    moreover have "N < 1099511627776" and "0 < N" and "4 * N \<le> 5 * of_nat m + 4"
      using n40 n m2 by (simp_all add: N_def)
    ultimately show ?thesis
      by linarith
  qed
  moreover have "of_nat m \<le> fl"
  proof (cases "m = 0")
    case True
    with low x show ?thesis
      by (simp add: x_def)
  next
    case False
    have "rat_of_int (int m) \<le> fround 53 x"
    proof (rule fround_pos_ge_int)
      show "0 < int m"
        using False by simp
      show "rat_of_int (int m) \<le> x"
        using m1 n by (simp add: x_def)
      show "x < 2 ^ 53"
        using n n40 by (simp add: x_def)
    qed
    then show ?thesis
      by (simp add: fl_def js_mul_def double_def double_four_fifths [unfolded double_def] x_def)
  qed
  ultimately have "\<lfloor>fl\<rfloor> = int m"
    by (simp add: floor_unique)
  then show ?thesis
    by (simp add: trainSplit_def Math_floor_def fl_def m_def)
qed

lemma rne_le_int:
  assumes "y \<le> of_int k"
  shows "rne y \<le> k"
proof -
  have fl: "of_int \<lfloor>y\<rfloor> \<le> y" and "\<lfloor>y\<rfloor> \<le> k"
    using assms by (simp_all add: floor_le_iff)
  show ?thesis
  proof (cases "\<lfloor>y\<rfloor> = k")
    case True
    with fl assms have "y = of_int \<lfloor>y\<rfloor>"
      by simp
    then have "y - of_int \<lfloor>y\<rfloor> = 0"
      by simp
    then show ?thesis
      unfolding rne_def Let_def using True by simp
  next
    case False
    with \<open>\<lfloor>y\<rfloor> \<le> k\<close> have "\<lfloor>y\<rfloor> + 1 \<le> k"
      by simp
    then show ?thesis
      unfolding rne_def Let_def by simp
  qed
qed

lemma powi_le_imp_le:
  assumes "(2::rat) powi a \<le> q" and "q < 2 powi b"
  shows "a < b"
proof (rule ccontr)
  assume "\<not> a < b"
  then have "(2::rat) powi b \<le> 2 powi a"
    by (intro power_int_increasing) simp_all
  with assms show False
    by simp
qed

lemma fround_pos_ge_ilog2:
  assumes "0 < q" and "0 < p"
  shows "2 powi (ilog2 q) \<le> fround p q"
proof -
  define e where "e = ilog2 q - (int p - 1)"
  define n where "n = p - 1"
  have E: "(2::rat) powi (ilog2 q) = 2 ^ n * 2 powi e"
  proof -
    have "ilog2 q = int n + e"
      using assms(2) by (simp add: e_def n_def)
    then show ?thesis
      by (simp add: power_int_add)
  qed
  have "of_int (2 ^ n) * 2 powi e \<le> q"
    using ilog2_bounds(1) [OF assms(1)] by (simp add: E)
  then have "of_int (2 ^ n) \<le> q / 2 powi e"
    by (simp add: pos_le_divide_eq)
  then have "2 ^ n \<le> rne (q / 2 powi e)"
    by (rule rne_ge_int)
  then have "(of_int (2 ^ n) :: rat) \<le> of_int (rne (q / 2 powi e))"
    by (simp only: of_int_le_iff)
  then have "of_int (2 ^ n) * 2 powi e \<le> of_int (rne (q / 2 powi e)) * (2::rat) powi e"
    by (intro mult_right_mono) simp_all
  then show ?thesis
    by (simp add: fround_pos [OF assms(1)] e_def [symmetric] E)
qed

lemma fround_pos_ge_powi:
  assumes "0 < q" and "0 < p" and "2 powi k \<le> q"
  shows "2 powi k \<le> fround p q"
proof -
  have "k < ilog2 q + 1"
    using assms(3) ilog2_bounds(2) [OF assms(1)] by (rule powi_le_imp_le)
  then have "(2::rat) powi k \<le> 2 powi (ilog2 q)"
    by (intro power_int_increasing) simp_all
  also have "\<dots> \<le> fround p q"
    using assms(1,2) by (rule fround_pos_ge_ilog2)
  finally show ?thesis .
qed

lemma fround_pos_le_powi:
  assumes "0 < q" and "0 < p" and "q \<le> 2 powi k"
  shows "fround p q \<le> 2 powi k"
proof -
  define e where "e = ilog2 q - (int p - 1)"
  have "ilog2 q < k + 1"
  proof (rule powi_le_imp_le)
    show "2 powi (ilog2 q) \<le> q"
      by (rule ilog2_bounds(1) [OF assms(1)])
    have "(2::rat) powi k < 2 powi (k + 1)"
      by (intro power_int_strict_increasing) simp_all
    with assms(3) show "q < 2 powi (k + 1)"
      by simp
  qed
  then have ke: "0 \<le> k - e"
    using assms(2) by (simp add: e_def)
  define n where "n = nat (k - e)"
  have K: "(2::rat) powi k = 2 ^ n * 2 powi e"
  proof -
    have "k = int n + e"
      using ke by (simp add: n_def)
    then show ?thesis
      by (simp add: power_int_add)
  qed
  have "q / 2 powi e \<le> of_int (2 ^ n)"
    using assms(3) by (simp add: K pos_divide_le_eq)
  then have "rne (q / 2 powi e) \<le> 2 ^ n"
    by (rule rne_le_int)
  then have "(of_int (rne (q / 2 powi e)) :: rat) \<le> of_int (2 ^ n)"
    by (simp only: of_int_le_iff)
  then have "of_int (rne (q / 2 powi e)) * (2::rat) powi e \<le> of_int (2 ^ n) * 2 powi e"
    by (intro mult_right_mono) simp_all
  then show ?thesis
    by (simp add: fround_pos [OF assms(1)] e_def [symmetric] K)
qed

lemma fround_pos_pos:
  assumes "0 < q" and "0 < p"
  shows "0 < fround p q"
proof -
  have "(0::rat) < 2 powi (ilog2 q)"
    by simp
  also have "\<dots> \<le> fround p q"
    using assms by (rule fround_pos_ge_ilog2)
  finally show ?thesis .
qed

lemma fround_unit_interval:
  assumes "0 < q" and "q \<le> 1" and "0 < p"
  shows "0 < fround p q" and "fround p q \<le> 1"
  using fround_pos_pos [of q p] fround_pos_le_powi [of q p 0] assms by simp_all

lemma fround_ge_one:
  assumes "1 \<le> q" and "0 < p"
  shows "1 \<le> fround p q"
  using fround_pos_ge_powi [of q p 0] assms by simp

section \<open>Purity of the generator\<close>

lemma generateLoop_heap_upto:
  "a < length h \<Longrightarrow>
   generateLoop_heap M count a i h = h[a := h ! a @ map (newProduct M) [i..count]]"
proof (induction M count a i h rule: generateLoop_heap.induct)
  case (1 M count a i h)
  show ?case
  proof (cases "i \<le> count")
    case True
    then have u: "[i..count] = i # [i + 1..count]"
      by (simp add: upto_rec1)
    have "a < length (array_push h a (newProduct M i))"
      using "1.prems" by (simp add: array_push_def)
    with True "1.IH" "1.prems" show ?thesis
      by (simp add: generateLoop_heap.simps [of M count a i] u array_push_def)
  next
    case False
    with "1.prems" show ?thesis
      by (simp add: generateLoop_heap.simps [of M count a i])
  qed
qed

lemma generateProducts_heap_eq:
  "generateProducts_heap M count h = (length h, h @ [generateProducts M count])"
  by (simp add: generateProducts_heap_def array_new_def generateLoop_heap_upto
      generateProducts_upto)

lemma js_mul_pos:
  assumes "0 < x * y"
  shows "0 < js_mul x y"
  using fround_pos_pos [OF assms, of 53] by (simp add: js_mul_def double_def)

lemma newProduct_engine:
  assumes "Math_sin M (js_mul (of_int i) 11) = Math_sin M' (js_mul (of_int i) 11)"
    and "Math_cos M (js_mul (of_int i) 7) = Math_cos M' (js_mul (of_int i) 7)"
  shows "newProduct M i = newProduct M' i"
  using assms by (simp add: newProduct_def)

lemma generateProducts_engine:
  assumes "\<forall>i. 1 \<le> i \<and> i \<le> count \<longrightarrow>
      Math_sin M (js_mul (of_int i) 11) = Math_sin M' (js_mul (of_int i) 11)
      \<and> Math_cos M (js_mul (of_int i) 7) = Math_cos M' (js_mul (of_int i) 7)"
  shows "generateProducts M count = generateProducts M' count"
  using assms by (auto simp: generateProducts_upto intro!: newProduct_engine)

text \<open>
  C7. A call of the generator changes no array that existed: it adds one array to the
  heap, the one it returns, and leaves every other cell as it was.  What that array holds
  does not depend on the heap the call started from, so two calls with the same count
  return equal sequences, whatever happened in between, and the second call leaves the
  array of the first untouched.  The only values the generator takes from outside are the
  sine at \<open>11 i\<close> and the cosine at \<open>7 i\<close> for the indices up to the count: two runs
  whose engines agree there produce the same sequence.
\<close>

theorem generateProducts_pure:
  "(case generateProducts_heap M count h of
      (r, h') \<Rightarrow>
        r = length h \<and> length h' = Suc (length h) \<and> take (length h) h' = h
        \<and> h' ! r = generateProducts M count)
   \<and> (case generateProducts_heap M count h of
        (r1, h1) \<Rightarrow>
          (case generateProducts_heap M count h1 of
             (r2, h2) \<Rightarrow>
               r1 \<noteq> r2 \<and> h2 ! r1 = h1 ! r1 \<and> h2 ! r2 = h2 ! r1))
   \<and> (case generateProducts_heap M count h of
        (r1, h1) \<Rightarrow>
          (case generateProducts_heap M count g of
             (r2, g1) \<Rightarrow> h1 ! r1 = g1 ! r2))
   \<and> ((\<forall>i. 1 \<le> i \<and> i \<le> count \<longrightarrow>
          Math_sin M (js_mul (of_int i) 11) = Math_sin M' (js_mul (of_int i) 11)
          \<and> Math_cos M (js_mul (of_int i) 7) = Math_cos M' (js_mul (of_int i) 7)) \<longrightarrow>
        generateProducts M count = generateProducts M' count)"
  using generateProducts_engine [of count M M']
  by (simp add: generateProducts_heap_eq nth_append)

theorem generateProducts_pure_witness:
  "fst (generateProducts_heap sampleMath 2 [sampleProducts]) = 1
   \<and> take 1 (snd (generateProducts_heap sampleMath 2 [sampleProducts])) = [sampleProducts]
   \<and> snd (generateProducts_heap sampleMath 2 [sampleProducts]) ! 1 = generateProducts sampleMath 2
   \<and> fst (generateProducts_heap sampleMath 2
            (snd (generateProducts_heap sampleMath 2 [sampleProducts]))) = 2
   \<and> snd (generateProducts_heap sampleMath 2
            (snd (generateProducts_heap sampleMath 2 [sampleProducts]))) ! 1 =
       snd (generateProducts_heap sampleMath 2
            (snd (generateProducts_heap sampleMath 2 [sampleProducts]))) ! 2
   \<and> Math_sin sampleMath 0 \<noteq> Math_sin sampleMath2 0
   \<and> generateProducts sampleMath 2 = generateProducts sampleMath2 2"
proof -
  have agree: "\<forall>i. 1 \<le> i \<and> i \<le> 2 \<longrightarrow>
      Math_sin sampleMath (js_mul (of_int i) 11) = Math_sin sampleMath2 (js_mul (of_int i) 11)
      \<and> Math_cos sampleMath (js_mul (of_int i) 7) = Math_cos sampleMath2 (js_mul (of_int i) 7)"
  proof (intro allI impI)
    fix i :: int
    assume "1 \<le> i \<and> i \<le> 2"
    then have "0 < js_mul (of_int i) 11"
      by (intro js_mul_pos) simp
    then show "Math_sin sampleMath (js_mul (of_int i) 11) = Math_sin sampleMath2 (js_mul (of_int i) 11)
      \<and> Math_cos sampleMath (js_mul (of_int i) 7) = Math_cos sampleMath2 (js_mul (of_int i) 7)"
      by (simp add: sampleMath_def sampleMath2_def)
  qed
  have differ: "Math_sin sampleMath 0 \<noteq> Math_sin sampleMath2 0"
    by (simp add: sampleMath_def sampleMath2_def)
  from generateProducts_pure
    [where M = sampleMath and count = 2 and h = "[sampleProducts]" and g = "[]"
      and M' = sampleMath2]
    agree
  have "generateProducts sampleMath 2 = generateProducts sampleMath2 2"
    by blast
  then show ?thesis
    using differ by (simp add: generateProducts_heap_eq nth_append)
qed

section \<open>Normalisation\<close>

lemma length_foldl_map2:
  "\<forall>row\<in>set rs. length row = length r \<Longrightarrow> length (foldl (map2 f) r rs) = length r"
  by (induction rs arbitrary: r) simp_all

lemma length_tf_min0: "\<forall>row\<in>set t. length row = w \<Longrightarrow> t \<noteq> [] \<Longrightarrow> length (tf_min0 t) = w"
  by (cases t) (simp_all add: tf_min0_def length_foldl_map2)

lemma length_tf_max0: "\<forall>row\<in>set t. length row = w \<Longrightarrow> t \<noteq> [] \<Longrightarrow> length (tf_max0 t) = w"
  by (cases t) (simp_all add: tf_max0_def length_foldl_map2)

lemma nth_foldl_map2:
  "\<forall>row\<in>set rs. length row = length r \<Longrightarrow> j < length r \<Longrightarrow>
   foldl (map2 f) r rs ! j = foldl f (r ! j) (map (\<lambda>row. row ! j) rs)"
  by (induction rs arbitrary: r) simp_all

lemma foldl_min_Min: "foldl min (a::rat) xs = Min (set (a # xs))"
proof -
  have "(\<lambda>x s. min s x) = (min :: rat \<Rightarrow> rat \<Rightarrow> rat)"
    by (intro ext) (rule min.commute)
  then show ?thesis
    by (simp only: Min.set_eq_fold foldl_conv_fold)
qed

lemma foldl_max_Max: "foldl max (a::rat) xs = Max (set (a # xs))"
proof -
  have "(\<lambda>x s. max s x) = (max :: rat \<Rightarrow> rat \<Rightarrow> rat)"
    by (intro ext) (rule max.commute)
  then show ?thesis
    by (simp only: Max.set_eq_fold foldl_conv_fold)
qed

lemma tf_min0_nth:
  assumes "\<forall>row\<in>set t. length row = w" and "t \<noteq> []" and "j < w"
  shows "tf_min0 t ! j = Min ((\<lambda>row. row ! j) ` set t)"
  using assms by (cases t) (simp_all add: tf_min0_def nth_foldl_map2 foldl_min_Min)

lemma tf_max0_nth:
  assumes "\<forall>row\<in>set t. length row = w" and "t \<noteq> []" and "j < w"
  shows "tf_max0 t ! j = Max ((\<lambda>row. row ! j) ` set t)"
  using assms by (cases t) (simp_all add: tf_max0_def nth_foldl_map2 foldl_max_Max)

lemma float32_zero: "float32 0 = 0"
  by (simp add: float32_def fround_def)

lemma normalize_t_zero_range:
  assumes "r < length t" and "j < length (t ! r)" and "j < length mn" and "j < length mx"
    and "mx ! j = mn ! j"
  shows "normalize_t t mn mx ! r ! j = 0"
  using assms
  by (simp add: normalize_t_def tf_divNoNan_rows_def tf_sub_rows_def tf_divNoNan_def tf_sub_def
      float32_zero)

text \<open>
  C2. In the normalisation of a tensor by its own column minima and maxima, a column
  whose maximum equals its minimum is 0 in every row: the division by the zero range
  returns 0.
\<close>

theorem normalize_constant_column:
  assumes "\<forall>row\<in>set t. length row = w" and "r < length t" and "j < w"
    and "tf_max0 t ! j = tf_min0 t ! j"
  shows "normalize_t t (tf_min0 t) (tf_max0 t) ! r ! j = 0"
proof -
  have "t \<noteq> []"
    using assms(2) by auto
  with assms(1) have "length (tf_min0 t) = w" and "length (tf_max0 t) = w"
    by (simp_all add: length_tf_min0 length_tf_max0)
  moreover have "length (t ! r) = w"
    using assms(1,2) by simp
  ultimately show ?thesis
    using assms by (intro normalize_t_zero_range) simp_all
qed

theorem normalize_constant_column_witness:
  "map length [[1, 5, 3], [2, 5, 9], [4, 5, 6 :: rat]] = [3, 3, 3]
   \<and> (1::nat) < length [[1, 5, 3], [2, 5, 9], [4, 5, 6 :: rat]] \<and> (1::nat) < 3
   \<and> tf_max0 [[1, 5, 3], [2, 5, 9], [4, 5, 6]] ! 1 = tf_min0 [[1, 5, 3], [2, 5, 9], [4, 5, 6]] ! 1
   \<and> normalize_t [[1, 5, 3], [2, 5, 9], [4, 5, 6]] (tf_min0 [[1, 5, 3], [2, 5, 9], [4, 5, 6]])
         (tf_max0 [[1, 5, 3], [2, 5, 9], [4, 5, 6]]) ! 1 ! 1 = 0"
proof -
  have h: "tf_max0 [[1, 5, 3], [2, 5, 9], [4, 5, 6]] ! 1 = tf_min0 [[1, 5, 3], [2, 5, 9], [4, 5, 6]] ! 1"
    by (simp add: tf_max0_def tf_min0_def)
  show ?thesis
    using normalize_constant_column [of "[[1, 5, 3], [2, 5, 9], [4, 5, 6]]" 3 1 1] h by simp
qed

section \<open>The training and validation blocks\<close>

lemma normalize_t_map:
  "normalize_t t mn mx = map (\<lambda>row. tf_divNoNan (tf_sub row mn) (tf_sub mx mn)) t"
  by (simp add: normalize_t_def tf_divNoNan_rows_def tf_sub_rows_def)

lemma normalize_t_take: "take k (normalize_t t mn mx) = normalize_t (take k t) mn mx"
  by (simp add: normalize_t_map take_map)

lemma normalize_t_drop: "drop k (normalize_t t mn mx) = normalize_t (drop k t) mn mx"
  by (simp add: normalize_t_map drop_map)

lemma length_normalize_t: "length (normalize_t t mn mx) = length t"
  by (simp add: normalize_t_map)

lemma trainSplit_150: "trainSplit 150 = 120"
  using trainSplit_eq [of 150] by simp

text \<open>
  C3. The split is by position.  With \<open>n\<close> records and \<open>split = Math.floor(n * 0.8)\<close>,
  the training block handed to the fit is made of the normalised rows and the labels of
  the first \<open>split\<close> records, in their order, and the validation block of those of
  the remaining \<open>n - split\<close> records.  The binary64 product gives the exact
  \<open>\<lfloor>4 n / 5\<rfloor>\<close> for every \<open>n\<close> below \<open>2 ^ 40\<close>; for 150 records the first 120 are
  the training block and the last 30 the validation block.
\<close>

theorem trainingData_split:
  "case trainingData tf items of
     Inl e \<Rightarrow> items = []
   | Inr (xMin, xMax, xTrain, yTrain, xVal, yVal) \<Rightarrow>
       (let n = length items;
            split = trainSplit n;
            rows = (\<lambda>ps. normalize_t (map (map float32 \<circ> features) ps) xMin xMax);
            labels = map (\<lambda>p. [float32 (of_int (reorder p))])
        in xTrain = rows (take split items) \<and> xVal = rows (drop split items)
           \<and> yTrain = labels (take split items) \<and> yVal = labels (drop split items)
           \<and> length xTrain = split \<and> length xVal = n - split
           \<and> length yTrain = split \<and> length yVal = n - split
           \<and> (n < 2 ^ 40 \<longrightarrow> split = 4 * n div 5)
           \<and> (n = 150 \<longrightarrow> split = 120 \<and> length xTrain = 120 \<and> length xVal = 30
                \<and> xTrain = rows (take 120 items) \<and> xVal = rows (drop 120 items)))"
proof (cases "items = []")
  case True
  then show ?thesis
    by (simp add: trainingData_def tensor2d_def)
next
  case False
  have le: "trainSplit (length items) \<le> length items"
    by (rule trainSplit_le)
  have eq: "length items < 2 ^ 40 \<Longrightarrow> trainSplit (length items) = 4 * length items div 5"
    by (rule trainSplit_eq)
  from False le eq show ?thesis
    by (simp add: trainingData_def tensor2d_def Let_def tf_slice_rows_def normalize_t_take
        normalize_t_drop length_normalize_t take_map drop_map trainSplit_150 min_absorb2)
qed

theorem trainingData_split_witness:
  "length (generateProducts sampleMath 150) = 150 \<and> (150::nat) < 2 ^ 40
   \<and> (case trainingData sampleTf (generateProducts sampleMath 150) of
        Inl e \<Rightarrow> False
      | Inr (xMin, xMax, xTrain, yTrain, xVal, yVal) \<Rightarrow>
          trainSplit 150 = 4 * 150 div 5 \<and> length xTrain = 120 \<and> length xVal = 30)"
proof -
  let ?items = "generateProducts sampleMath 150"
  have len: "length ?items = 150"
    by (simp add: length_generateProducts)
  then have ne: "?items \<noteq> []"
    by auto
  note split = trainingData_split [where tf = sampleTf and items = ?items]
  show ?thesis
  proof (cases "trainingData sampleTf ?items")
    case (Inl e)
    with split ne show ?thesis
      by simp
  next
    case (Inr t)
    obtain xMin xMax xTrain yTrain xVal yVal where t: "t = (xMin, xMax, xTrain, yTrain, xVal, yVal)"
      by (cases t) auto
    from split have "trainSplit 150 = 4 * 150 div 5 \<and> length xTrain = 120 \<and> length xVal = 30"
      unfolding Inr t Let_def len by (simp add: length_normalize_t len)
    then show ?thesis
      by (simp add: Inr t len)
  qed
qed

section \<open>The training cycle\<close>

lemma trainAndPredict_try_Inl:
  assumes "trainAndPredict_try tf s = (Inl e, s')"
  shows "products s' = products s" and "stats s' = stats s" and "alerts s' = alerts s"
    and "console s' = console s" and "runningModel s' = runningModel s"
    and "downloads s' = downloads s"
  using assms
  by (auto simp: trainAndPredict_try_def Let_def split: prod.splits sum.splits)

lemma trainAndPredict_try_Inr:
  assumes "trainAndPredict_try tf s = (Inr u, s')"
  shows "alerts s' = alerts s" and "console s' = console s"
    and "runningModel s' = runningModel s" and "downloads s' = downloads s"
  using assms
  by (auto simp: trainAndPredict_try_def Let_def split: prod.splits sum.splits)

lemma trainAndPredict_try_scores:
  assumes "trainAndPredict_try tf s = (Inr u, s')"
  obtains m t predData where "predict tf m t = Inr predData"
    and "length t = length (products s)"
    and "products s' = map (scoreProduct predData) (enumerate 0 (products s))"
proof -
  obtain res store where b: "buildAndTrainModel tf (products s) (modelStore s) = (res, store)"
    by (cases "buildAndTrainModel tf (products s) (modelStore s)")
  with assms obtain model xMin xMax valAcc where res: "res = Inr (model, xMin, xMax, valAcc)"
    by (cases res) (auto simp: trainAndPredict_try_def)
  from assms b res obtain inputTensor where
    it: "tensor2d tf (map features (products s)) = Inr inputTensor"
    by (cases "tensor2d tf (map features (products s))") (auto simp: trainAndPredict_try_def Let_def)
  then have len: "length inputTensor = length (products s)"
    by (auto simp: tensor2d_def split: if_splits)
  from assms b res it obtain predData where
    pd: "predict tf model (normalize_t inputTensor xMin xMax) = Inr predData"
    by (cases "predict tf model (normalize_t inputTensor xMin xMax)")
      (auto simp: trainAndPredict_try_def Let_def)
  from assms b res it pd
  have "products s' = map (scoreProduct predData) (enumerate 0 (products s))"
    by (auto simp: trainAndPredict_try_def Let_def)
  with pd len show ?thesis
    by (intro that [of model "normalize_t inputTensor xMin xMax" predData])
      (simp_all add: length_normalize_t)
qed

lemma trainAndPredict_empty:
  "products s = [] \<Longrightarrow> trainAndPredict tf s = s\<lparr>alerts := alerts s @ [''No products available.'']\<rparr>"
  by (simp add: trainAndPredict_def)

lemma trainAndPredict_running: "products s \<noteq> [] \<Longrightarrow> runningModel (trainAndPredict tf s) = False"
  by (simp add: trainAndPredict_def Let_def)

lemma trainAndPredict_products:
  "products (trainAndPredict tf s) =
     (if products s = [] then products s
      else products (snd (trainAndPredict_try tf (s\<lparr>runningModel := True\<rparr>))))"
  by (simp add: trainAndPredict_def Let_def split: prod.splits sum.splits)


lemma trainAndPredict_failed:
  assumes "products s \<noteq> []"
    and "fst (trainAndPredict_try tf (s\<lparr>runningModel := True\<rparr>)) = Inl err"
  shows "products (trainAndPredict tf s) = products s"
    and "stats (trainAndPredict tf s) = stats s"
    and "console (trainAndPredict tf s) = console s @ [err]"
    and "alerts (trainAndPredict tf s) =
           alerts s @ [''Error training/predicting: '' @
                       (if message err \<noteq> [] then message err else error_toString err)]"
proof -
  obtain s' where t: "trainAndPredict_try tf (s\<lparr>runningModel := True\<rparr>) = (Inl err, s')"
    using assms(2) by (cases "trainAndPredict_try tf (s\<lparr>runningModel := True\<rparr>)") simp
  note frame = trainAndPredict_try_Inl [OF t]
  have r: "trainAndPredict tf s =
      s'\<lparr> console := console s' @ [err],
          alerts := alerts s' @ [''Error training/predicting: '' @
                       (if message err \<noteq> [] then message err else error_toString err)],
          runningModel := False \<rparr>"
    using assms(1) by (simp add: trainAndPredict_def Let_def t)
  show "products (trainAndPredict tf s) = products s"
    and "stats (trainAndPredict tf s) = stats s"
    and "console (trainAndPredict tf s) = console s @ [err]"
    and "alerts (trainAndPredict tf s) =
           alerts s @ [''Error training/predicting: '' @
                       (if message err \<noteq> [] then message err else error_toString err)]"
    by (simp_all add: r frame)
qed

text \<open>
  C4. On an empty dataset the trainer only reports \<open>No products available.\<close>: the
  state is otherwise untouched, whatever the library would do, so nothing is trained or
  scored.  On a dataset with records the flag \<open>runningModel\<close> is false at the end,
  whether the cycle succeeded or failed.  When the fit or the scoring throws, the thrown
  value is logged and reported with its message, and \<open>products\<close> and \<open>stats\<close> are
  those from before the cycle.
\<close>

theorem trainAndPredict_failure:
  "(products s = [] \<longrightarrow>
      trainAndPredict tf s = s\<lparr>alerts := alerts s @ [''No products available.'']\<rparr>)
   \<and> (products s \<noteq> [] \<longrightarrow> runningModel (trainAndPredict tf s) = False)
   \<and> (products s \<noteq> [] \<and> fst (trainAndPredict_try tf (s\<lparr>runningModel := True\<rparr>)) = Inl err \<longrightarrow>
        products (trainAndPredict tf s) = products s
        \<and> stats (trainAndPredict tf s) = stats s
        \<and> console (trainAndPredict tf s) = console s @ [err]
        \<and> alerts (trainAndPredict tf s) =
             alerts s @ [''Error training/predicting: '' @
                         (if message err \<noteq> [] then message err else error_toString err)])"
  using trainAndPredict_empty [of s tf] trainAndPredict_running [of s tf]
    trainAndPredict_failed [of s tf err]
  by blast

lemma sample_two_products: "generateProducts sampleMath 2 \<noteq> []"
  using length_generateProducts [of sampleMath 2] by auto

theorem trainAndPredict_failure_witness:
  "products (initialApp []) = []
   \<and> trainAndPredict failingTf (initialApp []) =
       (initialApp [])\<lparr>alerts := [''No products available.'']\<rparr>
   \<and> products (initialApp (generateProducts sampleMath 2)) \<noteq> []
   \<and> fst (trainAndPredict_try failingTf ((initialApp (generateProducts sampleMath 2))\<lparr>runningModel := True\<rparr>))
       = Inl \<lparr> err_name = ''Error'', message = ''fit failed'' \<rparr>
   \<and> runningModel (trainAndPredict failingTf (initialApp (generateProducts sampleMath 2))) = False
   \<and> products (trainAndPredict failingTf (initialApp (generateProducts sampleMath 2))) =
       generateProducts sampleMath 2
   \<and> alerts (trainAndPredict failingTf (initialApp (generateProducts sampleMath 2))) =
       [''Error training/predicting: fit failed'']"
proof -
  let ?s = "initialApp (generateProducts sampleMath 2)"
  let ?err = "\<lparr> err_name = ''Error'', message = ''fit failed'' \<rparr>"
  have e: "products (initialApp []) = []" and a: "alerts (initialApp []) = []"
    by (simp_all add: initialApp_def)
  have p: "products ?s = generateProducts sampleMath 2" and "alerts ?s = []"
    by (simp_all add: initialApp_def)
  have f: "fst (trainAndPredict_try failingTf (?s\<lparr>runningModel := True\<rparr>)) = Inl ?err"
    using sample_two_products
    by (simp add: trainAndPredict_try_def buildAndTrainModel_def trainingData_def tensor2d_def
        Let_def failingTf_def p)
  show ?thesis
    using trainAndPredict_failure [of "initialApp []" failingTf ?err]
      trainAndPredict_failure [of ?s failingTf ?err] e a p \<open>alerts ?s = []\<close> f sample_two_products
    by simp
qed

text \<open>
  The fitted model is installed before the records are scored: when the fit succeeds
  and the scoring throws, \<open>modelStore\<close> already holds the new model and its
  normalisation parameters, while the records keep their previous predictions.
\<close>

lemma modelStore_after_failed_scoring:
  assumes "products s \<noteq> []"
    and "trainingData tf (products s) = Inr (xMin, xMax, xTrain, yTrain, xVal, yVal)"
    and "fit tf xTrain yTrain xVal yVal = Inr (m, val_accuracy)"
    and "predict tf m (normalize_t (map (map float32 \<circ> features) (products s)) xMin xMax) = Inl e"
  shows "modelStore (trainAndPredict tf s) = Some (m, xMin, xMax)"
    and "products (trainAndPredict tf s) = products s"
  using assms
  by (simp_all add: trainAndPredict_def trainAndPredict_try_def buildAndTrainModel_def
      tensor2d_def Let_def)

subsection \<open>The output unit\<close>

text \<open>
  The exponential is never negative.  Then one plus the exponential is at least 1 and
  stays so when rounded, its reciprocal lies between 0 and 1 and stays so when rounded
  to binary64 and then to binary32; an infinite exponential gives the score 0.
\<close>

lemma sigmoid_range:
  assumes "\<forall>x e. Math_exp tf x = Some e \<longrightarrow> 0 \<le> e"
  shows "0 \<le> sigmoid tf z" and "sigmoid tf z \<le> 1"
proof -
  have "0 \<le> sigmoid tf z \<and> sigmoid tf z \<le> 1"
  proof (cases "Math_exp tf (- z)")
    case None
    then show ?thesis
      by (simp add: sigmoid_def)
  next
    case (Some e)
    with assms have e: "0 \<le> e"
      by blast
    define a where "a = js_add 1 e"
    define d where "d = js_div 1 a"
    have a: "1 \<le> a"
      using e by (simp add: a_def js_add_def double_def fround_ge_one)
    then have "0 < 1 / a" and "1 / a \<le> 1"
      by simp_all
    then have d: "0 < d" "d \<le> 1"
      unfolding d_def js_div_def double_def by (simp_all add: fround_unit_interval)
    then have "0 < float32 d" and "float32 d \<le> 1"
      unfolding float32_def by (simp_all add: fround_unit_interval)
    then show ?thesis
      by (simp add: sigmoid_def Some a_def d_def)
  qed
  then show "0 \<le> sigmoid tf z" and "sigmoid tf z \<le> 1"
    by simp_all
qed

lemma predict_scores:
  assumes "predict tf m t = Inr predData"
  shows "predData = map (\<lambda>row. sigmoid tf (output_logit tf m row)) t"
  using assms by (simp add: predict_def split: option.splits)

text \<open>
  C6. After a successful cycle every record has a score and a label, and the label is 1
  exactly when the score is above 0.5 and 0 otherwise.  The score of a record is the
  sigmoid of the output unit on its row, so with an exponential that is never negative
  it lies in the closed interval from 0 to 1.
\<close>

theorem trainAndPredict_scores:
  assumes "products s \<noteq> []"
    and "fst (trainAndPredict_try tf (s\<lparr>runningModel := True\<rparr>)) = Inr ()"
  shows "length (products (trainAndPredict tf s)) = length (products s)
     \<and> (\<forall>p\<in>set (products (trainAndPredict tf s)).
          \<exists>x. predictionScore p = Some x \<and> prediction p = Some (if 1 / 2 < x then 1 else 0))
     \<and> ((\<forall>x e. Math_exp tf x = Some e \<longrightarrow> 0 \<le> e) \<longrightarrow>
         (\<forall>p\<in>set (products (trainAndPredict tf s)).
            \<exists>x. predictionScore p = Some x \<and> 0 \<le> x \<and> x \<le> 1
                \<and> prediction p = Some (if 1 / 2 < x then 1 else 0)))"
proof -
  obtain s' where t: "trainAndPredict_try tf (s\<lparr>runningModel := True\<rparr>) = (Inr (), s')"
    using assms(2) by (cases "trainAndPredict_try tf (s\<lparr>runningModel := True\<rparr>)") simp
  from trainAndPredict_try_scores [OF t] obtain m t' predData where
    pd: "predict tf m t' = Inr predData" and len: "length t' = length (products s)"
    and ps: "products s' = map (scoreProduct predData) (enumerate 0 (products s))"
    by auto
  have r: "products (trainAndPredict tf s) = map (scoreProduct predData) (enumerate 0 (products s))"
    using assms(1) by (simp add: trainAndPredict_products t ps)
  note pm = predict_scores [OF pd]
  have scored: "\<exists>z. predictionScore (scoreProduct predData ip) = Some (sigmoid tf z)
      \<and> prediction (scoreProduct predData ip) = Some (if 1 / 2 < sigmoid tf z then 1 else 0)"
    if ip: "ip \<in> set (enumerate 0 (products s))" for ip
  proof -
    obtain i p where [simp]: "ip = (i, p)"
      by (cases ip)
    from ip have i: "i < length t'"
      by (simp add: in_set_enumerate_eq len)
    then have "typed_array_get predData i = Some (sigmoid tf (output_logit tf m (t' ! i)))"
      by (simp add: typed_array_get_def pm)
    then show ?thesis
      by (auto simp: scoreProduct_def Let_def)
  qed
  show ?thesis
  proof (intro conjI impI ballI)
    show "length (products (trainAndPredict tf s)) = length (products s)"
      by (simp add: r)
  next
    fix p assume "p \<in> set (products (trainAndPredict tf s))"
    then obtain ip where "ip \<in> set (enumerate 0 (products s))" and "p = scoreProduct predData ip"
      by (auto simp: r)
    with scored [of ip]
    show "\<exists>x. predictionScore p = Some x \<and> prediction p = Some (if 1 / 2 < x then 1 else 0)"
      by auto
  next
    fix p
    assume c: "\<forall>x e. Math_exp tf x = Some e \<longrightarrow> 0 \<le> e"
      and "p \<in> set (products (trainAndPredict tf s))"
    then obtain ip where "ip \<in> set (enumerate 0 (products s))" and "p = scoreProduct predData ip"
      by (auto simp: r)
    with scored [of ip] obtain z where "predictionScore p = Some (sigmoid tf z)"
      and "prediction p = Some (if 1 / 2 < sigmoid tf z then 1 else 0)"
      by auto
    with sigmoid_range [OF c, of z]
    show "\<exists>x. predictionScore p = Some x \<and> 0 \<le> x \<and> x \<le> 1
                \<and> prediction p = Some (if 1 / 2 < x then 1 else 0)"
      by auto
  qed
qed

lemma sampleExp_nonneg: "\<forall>x e. sampleExp x = Some e \<longrightarrow> 0 \<le> e"
  by (auto simp: sampleExp_def split: if_splits)

lemma sampleTf_succeeds:
  "products s \<noteq> [] \<Longrightarrow> fst (trainAndPredict_try sampleTf s) = Inr ()"
  by (simp add: trainAndPredict_try_def buildAndTrainModel_def trainingData_def tensor2d_def
      predict_def Let_def sampleTf_def)

lemma sampleTf2_succeeds:
  "products s \<noteq> [] \<Longrightarrow> fst (trainAndPredict_try sampleTf2 s) = Inr ()"
  by (simp add: trainAndPredict_try_def buildAndTrainModel_def trainingData_def tensor2d_def
      predict_def Let_def sampleTf2_def)

theorem trainAndPredict_scores_witness:
  "products (initialApp (generateProducts sampleMath 2)) \<noteq> []
   \<and> fst (trainAndPredict_try sampleTf
           ((initialApp (generateProducts sampleMath 2))\<lparr>runningModel := True\<rparr>)) = Inr ()
   \<and> list_all
        (\<lambda>p. \<exists>x. predictionScore p = Some x \<and> 0 \<le> x \<and> x \<le> 1
               \<and> prediction p = Some (if 1 / 2 < x then 1 else 0))
        (products (trainAndPredict sampleTf (initialApp (generateProducts sampleMath 2))))"
proof -
  let ?s = "initialApp (generateProducts sampleMath 2)"
  have p: "products ?s \<noteq> []"
    using sample_two_products by (simp add: initialApp_def)
  have f: "fst (trainAndPredict_try sampleTf (?s\<lparr>runningModel := True\<rparr>)) = Inr ()"
    using p by (intro sampleTf_succeeds) simp
  have c: "\<forall>x e. Math_exp sampleTf x = Some e \<longrightarrow> 0 \<le> e"
    using sampleExp_nonneg by (simp add: sampleTf_def)
  from trainAndPredict_scores [OF p f] c p f show ?thesis
    unfolding list_all_iff by blast
qed

subsection \<open>What a cycle leaves alone\<close>

lemma features_baseFields:
  "features p = (\<lambda>(i, n, c, a, d, r). [of_int c, of_int a, of_int d]) (baseFields p)"
  by (simp add: features_def baseFields_def)

lemma reorder_baseFields: "reorder p = (\<lambda>(i, n, c, a, d, r). r) (baseFields p)"
  by (simp add: baseFields_def)

lemma map_features_cong:
  assumes "map baseFields ps = map baseFields qs"
  shows "map features ps = map features qs"
proof -
  have "map features ps = map (\<lambda>(i, n, c, a, d, r). [of_int c, of_int a, of_int d]) (map baseFields ps)"
    by (simp add: features_baseFields comp_def)
  also have "\<dots> = map features qs"
    by (simp add: assms features_baseFields comp_def)
  finally show ?thesis .
qed

lemma map_reorder_cong:
  assumes "map baseFields ps = map baseFields qs"
  shows "map reorder ps = map reorder qs"
proof -
  have "map reorder ps = map (\<lambda>(i, n, c, a, d, r). r) (map baseFields ps)"
    by (simp add: reorder_baseFields comp_def)
  also have "\<dots> = map reorder qs"
    by (simp add: assms reorder_baseFields comp_def)
  finally show ?thesis .
qed

lemma trainingData_cong:
  assumes "map baseFields ps = map baseFields qs"
  shows "trainingData tf ps = trainingData tf qs"
proof -
  have l: "length ps = length qs"
    using assms by (rule map_eq_imp_length_eq)
  have "map (\<lambda>p. [rat_of_int (reorder p)]) ps = map (\<lambda>r. [rat_of_int r]) (map reorder ps)"
    by (simp add: comp_def)
  also have "\<dots> = map (\<lambda>p. [rat_of_int (reorder p)]) qs"
    by (simp add: map_reorder_cong [OF assms] comp_def)
  finally have y: "map (\<lambda>p. [rat_of_int (reorder p)]) ps = map (\<lambda>p. [rat_of_int (reorder p)]) qs" .
  show ?thesis
    unfolding trainingData_def map_features_cong [OF assms] l y ..
qed

lemma baseFields_scoreProduct: "baseFields (scoreProduct d ip) = baseFields (snd ip)"
  by (cases ip) (simp add: scoreProduct_def baseFields_def Let_def)

lemma scoreProduct_cong:
  "baseFields p = baseFields q \<Longrightarrow> scoreProduct d (i, p) = scoreProduct d (i, q)"
  by (cases p, cases q) (simp add: scoreProduct_def baseFields_def Let_def)

lemma map_scoreProduct_cong:
  assumes "map baseFields ps = map baseFields qs"
  shows "map (scoreProduct d) (enumerate 0 ps) = map (scoreProduct d) (enumerate 0 qs)"
proof (rule nth_equalityI)
  have l: "length ps = length qs"
    using assms by (rule map_eq_imp_length_eq)
  then show "length (map (scoreProduct d) (enumerate 0 ps)) = length (map (scoreProduct d) (enumerate 0 qs))"
    by simp
  fix i assume "i < length (map (scoreProduct d) (enumerate 0 ps))"
  then have i: "i < length ps" "i < length qs"
    using l by simp_all
  have "map baseFields ps ! i = map baseFields qs ! i"
    by (simp only: assms)
  with i have "baseFields (ps ! i) = baseFields (qs ! i)"
    by simp
  then have "scoreProduct d (i, ps ! i) = scoreProduct d (i, qs ! i)"
    by (rule scoreProduct_cong)
  then show "map (scoreProduct d) (enumerate 0 ps) ! i = map (scoreProduct d) (enumerate 0 qs) ! i"
    using i by (simp add: nth_enumerate_eq)
qed

lemma map_baseFields_scoreProduct:
  "map baseFields (map (scoreProduct d) (enumerate 0 ps)) = map baseFields ps"
  by (rule nth_equalityI) (simp_all add: nth_enumerate_eq baseFields_scoreProduct)

lemma trainAndPredict_try_cong:
  assumes "map baseFields (products s) = map baseFields (products t)"
  shows "fst (trainAndPredict_try tf s) = fst (trainAndPredict_try tf t)"
    and "fst (trainAndPredict_try tf s) = Inr () \<Longrightarrow>
           products (snd (trainAndPredict_try tf s)) = products (snd (trainAndPredict_try tf t))"
proof -
  note td = trainingData_cong [OF assms, of tf]
    and fs = map_features_cong [OF assms]
    and sc = map_scoreProduct_cong [OF assms]
  note defs = trainAndPredict_try_def buildAndTrainModel_def Let_def
  have "fst (trainAndPredict_try tf s) = fst (trainAndPredict_try tf t)
    \<and> (fst (trainAndPredict_try tf s) = Inr () \<longrightarrow>
           products (snd (trainAndPredict_try tf s)) = products (snd (trainAndPredict_try tf t)))"
  proof (cases "trainingData tf (products t)")
    case (Inl e)
    then show ?thesis
      by (simp add: defs td)
  next
    case (Inr d)
    obtain xMin xMax xTrain yTrain xVal yVal where d: "d = (xMin, xMax, xTrain, yTrain, xVal, yVal)"
      by (cases d) auto
    show ?thesis
    proof (cases "fit tf xTrain yTrain xVal yVal")
      case (Inl e)
      then show ?thesis
        by (simp add: defs td Inr d)
    next
      case fitted: (Inr mv)
      obtain model val_accuracy where mv: "mv = (model, val_accuracy)"
        by (cases mv)
      show ?thesis
      proof (cases "tensor2d tf (map features (products t))")
        case (Inl e)
        then show ?thesis
          by (simp add: defs td Inr d fitted mv fs)
      next
        case tensor: (Inr inputTensor)
        show ?thesis
        proof (cases "predict tf model (normalize_t inputTensor xMin xMax)")
          case (Inl e)
          then show ?thesis
            by (simp add: defs td Inr d fitted mv fs tensor)
        next
          case scored: (Inr predData)
          then show ?thesis
            by (simp add: defs td Inr d fitted mv fs tensor sc)
        qed
      qed
    qed
  qed
  then show "fst (trainAndPredict_try tf s) = fst (trainAndPredict_try tf t)"
    and "fst (trainAndPredict_try tf s) = Inr () \<Longrightarrow>
           products (snd (trainAndPredict_try tf s)) = products (snd (trainAndPredict_try tf t))"
    by simp_all
qed

lemma trainAndPredict_baseFields:
  "map baseFields (products (trainAndPredict tf s)) = map baseFields (products s)"
proof (cases "trainAndPredict_try tf (s\<lparr>runningModel := True\<rparr>)")
  case (Pair res s')
  show ?thesis
  proof (cases res)
    case (Inl e)
    with Pair trainAndPredict_try_Inl(1) [of tf "s\<lparr>runningModel := True\<rparr>" e s'] show ?thesis
      by (simp add: trainAndPredict_products)
  next
    case (Inr u)
    with Pair obtain predData where
      "products s' = map (scoreProduct predData) (enumerate 0 (products s))"
      using trainAndPredict_try_scores [of tf "s\<lparr>runningModel := True\<rparr>" u s'] by auto
    with Pair show ?thesis
      by (simp add: trainAndPredict_products map_baseFields_scoreProduct del: map_map)
  qed
qed


text \<open>
  C5. A training cycle, successful or not, leaves the id, the name, the inventory, the
  weekly sales, the lead time and the label of every record as they were.  After a
  second successful cycle the records are those the second cycle alone would have
  produced from the unscored dataset: the score, the prediction and its text all come
  from the second cycle.  On a generated dataset the label of every record remains the
  rule applied to its three numeric fields.
\<close>

theorem training_cycle_frame:
  "map baseFields (products (trainAndPredict tf1 s)) = map baseFields (products s)
   \<and> map baseFields (products (trainAndPredict tf2 (trainAndPredict tf1 s))) =
       map baseFields (products s)
   \<and> (products s \<noteq> []
        \<and> fst (trainAndPredict_try tf2 ((trainAndPredict tf1 s)\<lparr>runningModel := True\<rparr>)) = Inr () \<longrightarrow>
        products (trainAndPredict tf2 (trainAndPredict tf1 s)) = products (trainAndPredict tf2 s)
        \<and> (\<exists>predData. products (trainAndPredict tf2 (trainAndPredict tf1 s)) =
              map (scoreProduct predData) (enumerate 0 (products s))))
   \<and> (products s = generateProducts M count \<longrightarrow>
        (\<forall>p\<in>set (products (trainAndPredict tf2 (trainAndPredict tf1 s))).
           reorder p =
             (if reorderRule (currentInventory p) (avgSalesPerWeek p) (daysToReplenish p)
              then 1 else 0)))"
proof -
  let ?s1 = "trainAndPredict tf1 s"
  let ?s2 = "trainAndPredict tf2 ?s1"
  have b1: "map baseFields (products ?s1) = map baseFields (products s)"
    by (rule trainAndPredict_baseFields)
  have b2: "map baseFields (products ?s2) = map baseFields (products s)"
    by (simp only: trainAndPredict_baseFields)
  have third: "products ?s2 = products (trainAndPredict tf2 s)
      \<and> (\<exists>predData. products ?s2 = map (scoreProduct predData) (enumerate 0 (products s)))"
    if ne: "products s \<noteq> []"
      and ok: "fst (trainAndPredict_try tf2 (?s1\<lparr>runningModel := True\<rparr>)) = Inr ()"
  proof -
    have ne1: "products ?s1 \<noteq> []"
      using b1 ne by (metis map_is_Nil_conv)
    have c: "map baseFields (products (?s1\<lparr>runningModel := True\<rparr>)) =
        map baseFields (products (s\<lparr>runningModel := True\<rparr>))"
      using b1 by simp
    have ok': "fst (trainAndPredict_try tf2 (s\<lparr>runningModel := True\<rparr>)) = Inr ()"
      using trainAndPredict_try_cong(1) [OF c, of tf2] ok by simp
    have eq: "products ?s2 = products (trainAndPredict tf2 s)"
      using trainAndPredict_try_cong(2) [OF c ok] ne ne1 by (simp add: trainAndPredict_products)
    obtain s' where t: "trainAndPredict_try tf2 (s\<lparr>runningModel := True\<rparr>) = (Inr (), s')"
      using ok' by (cases "trainAndPredict_try tf2 (s\<lparr>runningModel := True\<rparr>)") simp
    from trainAndPredict_try_scores [OF t] obtain predData where
      "products s' = map (scoreProduct predData) (enumerate 0 (products s))"
      by auto
    then have "products (trainAndPredict tf2 s) = map (scoreProduct predData) (enumerate 0 (products s))"
      using ne by (simp add: trainAndPredict_products t)
    with eq show ?thesis
      by auto
  qed
  have fourth: "reorder p =
      (if reorderRule (currentInventory p) (avgSalesPerWeek p) (daysToReplenish p) then 1 else 0)"
    if gen: "products s = generateProducts M count" and p: "p \<in> set (products ?s2)" for p
  proof -
    from p have "baseFields p \<in> set (map baseFields (products ?s2))"
      by simp
    then have "baseFields p \<in> set (map baseFields (generateProducts M count))"
      by (simp only: b2 gen)
    then obtain i where "baseFields p = baseFields (newProduct M i)"
      by (auto simp: generateProducts_upto)
    then have "reorder p = reorder (newProduct M i)"
      and "currentInventory p = currentInventory (newProduct M i)"
      and "avgSalesPerWeek p = avgSalesPerWeek (newProduct M i)"
      and "daysToReplenish p = daysToReplenish (newProduct M i)"
      by (simp_all add: baseFields_def)
    then show ?thesis
      by (simp only: reorder_newProduct [symmetric])
  qed
  from b1 b2 third fourth show ?thesis
    by blast
qed

theorem training_cycle_frame_witness:
  "products (initialApp (generateProducts sampleMath 2)) \<noteq> []
   \<and> fst (trainAndPredict_try sampleTf2
          ((trainAndPredict sampleTf (initialApp (generateProducts sampleMath 2)))\<lparr>runningModel := True\<rparr>))
       = Inr ()
   \<and> products (initialApp (generateProducts sampleMath 2)) = generateProducts sampleMath 2
   \<and> products (trainAndPredict sampleTf2 (trainAndPredict sampleTf (initialApp (generateProducts sampleMath 2))))
       = products (trainAndPredict sampleTf2 (initialApp (generateProducts sampleMath 2)))
   \<and> list_all
        (\<lambda>p. reorder p =
           (if reorderRule (currentInventory p) (avgSalesPerWeek p) (daysToReplenish p)
            then 1 else 0))
        (products (trainAndPredict sampleTf2
           (trainAndPredict sampleTf (initialApp (generateProducts sampleMath 2)))))"
proof -
  let ?s = "initialApp (generateProducts sampleMath 2)"
  let ?s1 = "trainAndPredict sampleTf ?s"
  have g: "products ?s = generateProducts sampleMath 2"
    by (simp add: initialApp_def)
  then have p: "products ?s \<noteq> []"
    using sample_two_products by simp
  have "map baseFields (products ?s1) = map baseFields (products ?s)"
    by (rule trainAndPredict_baseFields)
  with p have "products ?s1 \<noteq> []"
    by (metis map_is_Nil_conv)
  then have f: "fst (trainAndPredict_try sampleTf2 (?s1\<lparr>runningModel := True\<rparr>)) = Inr ()"
    by (intro sampleTf2_succeeds) simp
  from training_cycle_frame [of sampleTf ?s sampleTf2 sampleMath 2] p f g show ?thesis
    unfolding list_all_iff by blast
qed

section \<open>The export and its reader\<close>

text \<open>
  A decimal numeral holds no quote, comma or line feed and reads back as its number; a
  quoted name is scanned as one field whatever it contains, and unquoting returns the
  name.  So the scanner splits the exported text into the header and the rows of
  fields as they were joined.
\<close>

subsection \<open>Decimal numerals\<close>

lemma of_char_digit_char: "d < 10 \<Longrightarrow> (of_char (digit_char d) :: nat) = 48 + d"
  by (simp add: digit_char_def)

lemma digit_char_plain:
  assumes "d < 10"
  shows "digit_char d \<noteq> quote_char" and "digit_char d \<noteq> CHR '',''"
    and "digit_char d \<noteq> CHR 0x0A" and "digit_char d \<noteq> CHR ''-''"
proof -
  have "(of_char (digit_char d) :: nat) \<noteq> of_char c" if "(of_char c :: nat) < 48" for c
    using that of_char_digit_char [OF assms] by simp
  then have "digit_char d \<noteq> c" if "(of_char c :: nat) < 48" for c
    using that by auto
  then show "digit_char d \<noteq> quote_char" and "digit_char d \<noteq> CHR '',''"
    and "digit_char d \<noteq> CHR 0x0A" and "digit_char d \<noteq> CHR ''-''"
    by (simp_all add: quote_char_def)
qed

lemma digits_nonempty: "digits n \<noteq> []"
  by (subst digits.simps) simp

lemma digits_plain:
  "c \<in> set (digits n) \<Longrightarrow> c \<noteq> quote_char \<and> c \<noteq> CHR '','' \<and> c \<noteq> CHR 0x0A \<and> c \<noteq> CHR ''-''"
proof (induction n rule: digits.induct)
  case (1 n)
  show ?case
  proof (cases "n < 10")
    case True
    with "1.prems" have "c = digit_char n"
      by (simp add: digits.simps [of n])
    with True show ?thesis
      using digit_char_plain [of n] by simp
  next
    case False
    with "1.prems" have "c \<in> set (digits (n div 10)) \<or> c = digit_char (n mod 10)"
      by (auto simp: digits.simps [of n])
    then show ?thesis
      using "1.IH" [OF False] digit_char_plain [of "n mod 10"] by auto
  qed
qed

lemma parse_nat_append: "parse_nat (s @ [c]) = 10 * parse_nat s + (of_char c - 48)"
  by (simp add: parse_nat_def)

lemma parse_nat_digits: "parse_nat (digits n) = n"
proof (induction n rule: digits.induct)
  case (1 n)
  show ?case
  proof (cases "n < 10")
    case True
    then show ?thesis
      by (simp add: digits.simps [of n] parse_nat_def of_char_digit_char)
  next
    case False
    then show ?thesis
      using "1.IH" by (simp add: digits.simps [of n] parse_nat_append of_char_digit_char)
  qed
qed

lemma parse_int_to_string: "parse_int (int_to_string n) = n"
proof (cases "n < 0")
  case True
  then show ?thesis
    by (simp add: parse_int_def int_to_string_def parse_nat_digits)
next
  case False
  obtain c cs where d: "digits (nat n) = c # cs"
    using digits_nonempty [of "nat n"] by (cases "digits (nat n)") auto
  then have "c \<noteq> CHR ''-''"
    using digits_plain [of c "nat n"] by simp
  with False show ?thesis
    using parse_nat_digits [of "nat n"] by (simp add: parse_int_def int_to_string_def d)
qed

lemma int_to_string_plain:
  "c \<in> set (int_to_string n) \<Longrightarrow> c \<noteq> quote_char \<and> c \<noteq> CHR '','' \<and> c \<noteq> CHR 0x0A"
  using digits_plain [of c] by (auto simp: int_to_string_def quote_char_def split: if_splits)

lemma toFixed_plain:
  assumes "c \<in> set (toFixed f x)"
  shows "c \<noteq> quote_char \<and> c \<noteq> CHR '','' \<and> c \<noteq> CHR 0x0A"
proof -
  define n where "n = nat \<lfloor>\<bar>x\<bar> * 10 ^ f + 1 / 2\<rfloor>"
  have "c \<in> set (digits n) \<or> c = CHR ''0'' \<or> c = CHR ''-'' \<or> c = CHR ''.''"
    using assms unfolding toFixed_def Let_def n_def [symmetric]
    by (auto split: if_splits dest!: in_set_takeD in_set_dropD)
  then show ?thesis
    using digits_plain [of c n] by (auto simp: quote_char_def)
qed

subsection \<open>Scanning\<close>

lemma csvScan_plain:
  "\<forall>c\<in>set w. c \<noteq> quote_char \<and> c \<noteq> CHR '','' \<and> c \<noteq> CHR 0x0A \<Longrightarrow>
   csvScan q fld row (w @ rest) = csvScan q (fld @ w) row rest"
  by (induction w arbitrary: fld) simp_all

lemma csvScan_escaped:
  "csvScan True fld row (concat (map (\<lambda>c. if c = quote_char then [c, c] else [c]) s) @ rest) =
   csvScan True (fld @ concat (map (\<lambda>c. if c = quote_char then [c, c] else [c]) s)) row rest"
  by (induction s arbitrary: fld) simp_all

lemma csvScan_quoted:
  "csvScan False fld row (csvQuote s @ rest) = csvScan False (fld @ csvQuote s) row rest"
  using csvScan_escaped [of "fld @ [quote_char]" row s "quote_char # rest"]
  by (simp add: csvQuote_def)

lemma csvScan_row:
  assumes "\<And>f fld row rest. f \<in> set fs \<Longrightarrow>
             csvScan False fld row (f @ rest) = csvScan False (fld @ f) row rest"
    and "fs \<noteq> []"
  shows "csvScan False [] row (join '','' fs @ rest) = csvScan False (last fs) (row @ butlast fs) rest"
  using assms
proof (induction fs arbitrary: row)
  case Nil
  then show ?case by simp
next
  case (Cons x fs)
  show ?case
  proof (cases fs)
    case Nil
    then show ?thesis
      using Cons.prems(1) [of x "[]" row rest] by simp
  next
    case (Cons y ys)
    have "csvScan False [] row (join '','' (x # fs) @ rest) =
        csvScan False [] row (x @ CHR '','' # join '','' fs @ rest)"
      by (simp add: Cons)
    also have "\<dots> = csvScan False x row (CHR '','' # join '','' fs @ rest)"
      using Cons.prems(1) [of x "[]" row] by simp
    also have "\<dots> = csvScan False [] (row @ [x]) (join '','' fs @ rest)"
      by (simp add: quote_char_def)
    also have "\<dots> = csvScan False (last fs) ((row @ [x]) @ butlast fs) rest"
      using Cons.prems(1) by (intro Cons.IH) (simp_all add: Cons)
    finally show ?thesis
      by (simp add: Cons)
  qed
qed

lemma csvScan_rows:
  assumes "\<And>r f fld row rest. r \<in> set rows \<Longrightarrow> f \<in> set r \<Longrightarrow>
             csvScan False fld row (f @ rest) = csvScan False (fld @ f) row rest"
    and "\<forall>r\<in>set rows. r \<noteq> []"
    and "rows \<noteq> []"
  shows "csvScan False [] [] (join [CHR 0x0A] (map (join '','') rows)) = rows"
  using assms
proof (induction rows)
  case Nil
  then show ?case by simp
next
  case (Cons r rows)
  note prems = Cons.prems and IH = Cons.IH
  have r: "r \<noteq> []"
    using Cons.prems(2) by simp
  have row: "csvScan False [] [] (join '','' r @ rest) = csvScan False (last r) (butlast r) rest" for rest
    using csvScan_row [of r "[]" rest] Cons.prems(1) [of r] r by simp
  show ?case
  proof (cases rows)
    case Nil
    then show ?thesis
      using row [of "[]"] r by simp
  next
    case (Cons r' rs)
    have "csvScan False [] [] (join [CHR 0x0A] (map (join '','') (r # rows))) =
        csvScan False [] [] (join '','' r @ CHR 0x0A # join [CHR 0x0A] (map (join '','') rows))"
      by (simp add: Cons)
    also have "\<dots> = csvScan False (last r) (butlast r) (CHR 0x0A # join [CHR 0x0A] (map (join '','') rows))"
      by (rule row)
    also have "\<dots> = r # csvScan False [] [] (join [CHR 0x0A] (map (join '','') rows))"
      using r by (simp add: quote_char_def)
    also have "csvScan False [] [] (join [CHR 0x0A] (map (join '','') rows)) = rows"
    proof (rule IH)
      show "csvScan False fld row (f @ rest) = csvScan False (fld @ f) row rest"
        if "r \<in> set rows" and "f \<in> set r" for r f fld row rest
        using that prems(1) [of r f] by simp
      show "\<forall>r\<in>set rows. r \<noteq> []"
        using prems(2) by simp
      show "rows \<noteq> []"
        by (simp add: Cons)
    qed
    finally show ?thesis .
  qed
qed


subsection \<open>Unquoting\<close>

lemma undouble_escaped:
  "undouble (concat (map (\<lambda>c. if c = quote_char then [c, c] else [c]) s)) = s"
proof (induction s)
  case Nil
  then show ?case by simp
next
  case (Cons c s)
  show ?case
  proof (cases "c = quote_char")
    case True
    with Cons.IH show ?thesis by simp
  next
    case False
    with Cons.IH show ?thesis
      by (cases "concat (map (\<lambda>c. if c = quote_char then [c, c] else [c]) s)") auto
  qed
qed

lemma csvUnquote_csvQuote: "csvUnquote (csvQuote s) = s"
  by (simp add: csvUnquote_def csvQuote_def undouble_escaped butlast_append)

subsection \<open>The round trip\<close>

lemma parseRow_csvFields: "parseRow (csvFields p) = baseFields p"
  by (simp add: parseRow_def csvFields_def baseFields_def parse_int_to_string csvUnquote_csvQuote)

lemma csvScan_field:
  assumes "f \<in> set (csvFields p)"
  shows "csvScan False fld row (f @ rest) = csvScan False (fld @ f) row rest"
proof -
  from assms consider "f = csvQuote (name p)"
    | "\<forall>c\<in>set f. c \<noteq> quote_char \<and> c \<noteq> CHR '','' \<and> c \<noteq> CHR 0x0A"
    using int_to_string_plain toFixed_plain
    by (auto simp: csvFields_def split: option.splits if_splits)
  then show ?thesis
    by cases (simp_all add: csvScan_quoted csvScan_plain)
qed

lemma csvScan_header_field:
  assumes "f \<in> set header"
  shows "csvScan False fld row (f @ rest) = csvScan False (fld @ f) row rest"
proof -
  from assms have "\<forall>c\<in>set f. c \<noteq> quote_char \<and> c \<noteq> CHR '','' \<and> c \<noteq> CHR 0x0A"
    by (auto simp: header_def quote_char_def)
  then show ?thesis
    by (rule csvScan_plain)
qed

lemma csvScan_csvText: "csvScan False [] [] (csvText ps) = header # map csvFields ps"
proof -
  have "csvScan False [] [] (join [CHR 0x0A] (map (join '','') (header # map csvFields ps))) =
      header # map csvFields ps"
  proof (rule csvScan_rows)
    show "csvScan False fld row (f @ rest) = csvScan False (fld @ f) row rest"
      if "r \<in> set (header # map csvFields ps)" and "f \<in> set r" for r f fld row rest
      using that csvScan_field csvScan_header_field by auto
    show "\<forall>r\<in>set (header # map csvFields ps). r \<noteq> []"
      by (auto simp: header_def csvFields_def)
    show "header # map csvFields ps \<noteq> []"
      by simp
  qed
  then show ?thesis
    by (simp add: csvText_def comp_def)
qed

text \<open>
  C9. Reading the exported text back recovers, for every record and in order, the id,
  the inventory, the weekly sales, the lead time and the label held in memory, and the
  name as well.  This holds for every list of records, whatever the names contain; the
  export of a non-empty dataset is the file \<open>products_with_predictions.csv\<close> with that
  text.
\<close>

theorem csv_round_trip:
  "parseCSV (csvText ps) = map baseFields ps
   \<and> (products s \<noteq> [] \<longrightarrow>
        downloads (downloadCSV s) =
          downloads s @ [(''products_with_predictions.csv'', csvText (products s))]
        \<and> parseCSV (snd (last (downloads (downloadCSV s)))) = map baseFields (products s))"
proof -
  have "parseCSV (csvText qs) = map baseFields qs" for qs
    by (simp add: parseCSV_def csvScan_csvText parseRow_csvFields)
  then show ?thesis
    by (simp add: downloadCSV_def)
qed

theorem csv_round_trip_witness:
  "products (initialApp sampleProducts) \<noteq> []
   \<and> parseCSV (snd (last (downloads (downloadCSV (initialApp sampleProducts))))) =
       [(1, ''Soda Pack 1'', 384, 22, 2, 0), (2, ''Rice, 5kg'', 396, 11, 3, 0)]"
proof -
  have p: "products (initialApp sampleProducts) = sampleProducts"
    by (simp add: initialApp_def)
  have b: "map baseFields sampleProducts =
      [(1, ''Soda Pack 1'', 384, 22, 2, 0), (2, ''Rice, 5kg'', 396, 11, 3, 0)]"
    and n: "sampleProducts \<noteq> []"
    by (simp_all add: sampleProducts_def baseFields_def)
  from csv_round_trip [of sampleProducts "initialApp sampleProducts"] p b n show ?thesis
    by simp
qed

subsection \<open>Blank scores\<close>

lemma trainAndPredict_success_products:
  assumes "products s \<noteq> []"
    and "fst (trainAndPredict_try tf (s\<lparr>runningModel := True\<rparr>)) = Inr ()"
  obtains predData where
    "products (trainAndPredict tf s) = map (scoreProduct predData) (enumerate 0 (products s))"
proof -
  obtain s' where t: "trainAndPredict_try tf (s\<lparr>runningModel := True\<rparr>) = (Inr (), s')"
    using assms(2) by (cases "trainAndPredict_try tf (s\<lparr>runningModel := True\<rparr>)") simp
  from trainAndPredict_try_scores [OF t] obtain predData where
    "products s' = map (scoreProduct predData) (enumerate 0 (products s))"
    by auto
  then have "products (trainAndPredict tf s) = map (scoreProduct predData) (enumerate 0 (products s))"
    using assms(1) by (simp add: trainAndPredict_products t)
  then show ?thesis
    by (rule that)
qed

lemma int_to_string_0: "int_to_string 0 = ''0''"
  by code_simp

text \<open>
  C10. The score field of a row is blank whenever the score of the record is absent or
  0.  The prediction field is blank only when the prediction is absent, and is \<open>0\<close>
  for the prediction 0.  So after a successful cycle a record whose score is exactly 0
  is exported with the prediction \<open>0\<close> and a blank score.
\<close>

theorem csv_blank_score:
  "((predictionScore p = None \<or> predictionScore p = Some 0) \<longrightarrow> csvFields p ! 7 = '''')
   \<and> (prediction p = Some 0 \<longrightarrow> csvFields p ! 6 = ''0'')
   \<and> (prediction p = None \<longrightarrow> csvFields p ! 6 = '''')
   \<and> (products s \<noteq> [] \<and> fst (trainAndPredict_try tf (s\<lparr>runningModel := True\<rparr>)) = Inr () \<longrightarrow>
        (\<forall>q\<in>set (products (trainAndPredict tf s)).
           predictionScore q = Some 0 \<longrightarrow>
             csvFields q ! 6 = ''0'' \<and> csvFields q ! 7 = ''''
             \<and> drop 6 (csvFields q) = [''0'', '''']))"
proof -
  have fields: "csvFields q ! 6 = ''0'' \<and> csvFields q ! 7 = '''' \<and> drop 6 (csvFields q) = [''0'', '''']"
    if "predictionScore q = Some 0" and "prediction q = Some 0" for q
    using that by (simp add: csvFields_def int_to_string_0)
  have trained: "csvFields q ! 6 = ''0'' \<and> csvFields q ! 7 = '''' \<and> drop 6 (csvFields q) = [''0'', '''']"
    if ne: "products s \<noteq> []"
      and ok: "fst (trainAndPredict_try tf (s\<lparr>runningModel := True\<rparr>)) = Inr ()"
      and q: "q \<in> set (products (trainAndPredict tf s))" and z: "predictionScore q = Some 0" for q
  proof -
    from trainAndPredict_success_products [OF ne ok] obtain predData where
      "products (trainAndPredict tf s) = map (scoreProduct predData) (enumerate 0 (products s))"
      by auto
    with q obtain ip where "q = scoreProduct predData ip"
      by auto
    with z have "prediction q = Some 0"
      by (cases ip) (auto simp: scoreProduct_def Let_def split: option.splits if_splits)
    with z show ?thesis
      by (rule fields)
  qed
  have blank: "csvFields p ! 7 = ''''" if "predictionScore p = None \<or> predictionScore p = Some 0"
    using that by (auto simp: csvFields_def)
  have lab: "prediction p = Some 0 \<longrightarrow> csvFields p ! 6 = ''0''"
    and nolab: "prediction p = None \<longrightarrow> csvFields p ! 6 = ''''"
    by (simp_all add: csvFields_def int_to_string_0)
  from blank lab nolab trained show ?thesis
    by blast
qed

lemma sampleTf2_scores:
  assumes "products s \<noteq> []"
  shows "list_all (\<lambda>p. predictionScore p = Some 0) (products (trainAndPredict sampleTf2 s))"
proof -
  have "fst (trainAndPredict_try sampleTf2 (s\<lparr>runningModel := True\<rparr>)) = Inr ()"
    using assms by (intro sampleTf2_succeeds) simp
  then obtain s' where t: "trainAndPredict_try sampleTf2 (s\<lparr>runningModel := True\<rparr>) = (Inr (), s')"
    by (cases "trainAndPredict_try sampleTf2 (s\<lparr>runningModel := True\<rparr>)") simp
  from trainAndPredict_try_scores [OF t] obtain m t' predData where
    pd: "predict sampleTf2 m t' = Inr predData" and len: "length t' = length (products s)"
    and ps: "products s' = map (scoreProduct predData) (enumerate 0 (products s))"
    by auto
  have "sigmoid sampleTf2 (output_logit sampleTf2 m row) = 0" for row
    by (simp add: sigmoid_def sampleTf2_def sampleExp_def)
  with predict_scores [OF pd] len have d: "predData = replicate (length (products s)) 0"
    by (simp add: map_replicate_const)
  have r: "products (trainAndPredict sampleTf2 s) =
      map (scoreProduct predData) (enumerate 0 (products s))"
    using assms by (simp add: trainAndPredict_products t ps)
  have "predictionScore (scoreProduct predData ip) = Some 0"
    if "ip \<in> set (enumerate 0 (products s))" for ip
  proof -
    obtain i p where ip: "ip = (i, p)"
      by (cases ip)
    with that have "i < length (products s)"
      by (simp add: in_set_enumerate_eq)
    then show ?thesis
      by (simp add: ip scoreProduct_def Let_def typed_array_get_def d)
  qed
  with r show ?thesis
    by (simp add: list_all_iff)
qed

theorem csv_blank_score_witness:
  "products (initialApp sampleProducts) \<noteq> []
   \<and> fst (trainAndPredict_try sampleTf2 ((initialApp sampleProducts)\<lparr>runningModel := True\<rparr>)) = Inr ()
   \<and> (let q = hd (products (trainAndPredict sampleTf2 (initialApp sampleProducts)))
      in q \<in> set (products (trainAndPredict sampleTf2 (initialApp sampleProducts)))
         \<and> predictionScore q = Some 0 \<and> csvFields q ! 6 = ''0'' \<and> csvFields q ! 7 = '''')"
proof -
  let ?s = "initialApp sampleProducts"
  let ?q = "hd (products (trainAndPredict sampleTf2 ?s))"
  have p: "products ?s \<noteq> []"
    by (simp add: initialApp_def sampleProducts_def)
  have f: "fst (trainAndPredict_try sampleTf2 (?s\<lparr>runningModel := True\<rparr>)) = Inr ()"
    using p by (intro sampleTf2_succeeds) simp
  have "map baseFields (products (trainAndPredict sampleTf2 ?s)) = map baseFields (products ?s)"
    by (rule trainAndPredict_baseFields)
  with p have "products (trainAndPredict sampleTf2 ?s) \<noteq> []"
    by (metis map_is_Nil_conv)
  then have q: "?q \<in> set (products (trainAndPredict sampleTf2 ?s))"
    by simp
  with sampleTf2_scores [OF p] have z: "predictionScore ?q = Some 0"
    by (simp add: list_all_iff)
  from csv_blank_score [of ?q ?s sampleTf2] p f q z show ?thesis
    unfolding Let_def by blast
qed

end
